theory Spec2Isabelle
  imports Complex_Main "HOL-Library.AList"
begin

section \<open>Strings: the library calls of the watcher\<close>

text \<open>
  \<^verbatim>\<open>str.lower\<close> on the ASCII letters; every other character is left as it is.
  (Outside ASCII no character lowers to one of \<^verbatim>\<open>.\<close>, \<^verbatim>\<open>s\<close>, \<^verbatim>\<open>v\<close>, so the
  suffix test of the handler only depends on this part.)
\<close>

definition lower_char :: "char \<Rightarrow> char" where
  "lower_char c =
     (let n = (of_char c :: nat) in if 65 \<le> n \<and> n \<le> 90 then char_of (n + 32) else c)"

definition lower :: "string \<Rightarrow> string" where
  "lower s = map lower_char s"

text \<open>\<^verbatim>\<open>str.endswith\<close>.\<close>

definition endswith :: "string \<Rightarrow> string \<Rightarrow> bool" where
  "endswith s suf = (length suf \<le> length s \<and> drop (length s - length suf) s = suf)"

text \<open>\<^verbatim>\<open>os.path.basename\<close> (POSIX): everything after the last slash.\<close>

definition basename :: "string \<Rightarrow> string" where
  "basename p = rev (takeWhile (\<lambda>c. c \<noteq> CHR ''/'') (rev p))"

section \<open>The watcher: \<^verbatim>\<open>SVSHandler\<close>\<close>

record event =
  is_directory :: bool
  src_path :: string

record SVSHandler =
  input_dir :: string
  output_dir :: string
  processed_files :: "string set"

text \<open>\<^verbatim>\<open>SVSHandler.__init__\<close>: the processed set starts empty.\<close>

definition init :: "string \<Rightarrow> string \<Rightarrow> SVSHandler" where
  "init idir odir = \<lparr>input_dir = idir, output_dir = odir, processed_files = {}\<rparr>"

text \<open>
  What a call of \<^verbatim>\<open>subprocess.run\<close> can do: the child exits with a return code, or the
  call itself raises (the program cannot be started, say).
\<close>

datatype proc_outcome = Returncode int | Raises string

text \<open>
  The exceptions of the \<^verbatim>\<open>try\<close> block: \<^verbatim>\<open>check=True\<close> turns a non-zero return code
  into \<^verbatim>\<open>CalledProcessError\<close> (return code, command); anything else is caught by
  \<^verbatim>\<open>except Exception\<close>.
\<close>

datatype exn = CalledProcessError int "string list" | OtherException string

text \<open>The log lines of the handler, one constructor per format string, with the file name.\<close>

datatype message =
    AlreadyProcessed string
  | NewFileDetected string
  | ErrorAccessing string
  | RunningTissueDetection string
  | RunningArtifactDetection string
  | SuccessfullyProcessed string
  | ErrorProcessing string exn
  | UnexpectedError string exn

text \<open>
  Everything the handler does to the outside, in the order it does it: log lines, size
  readings with what they returned (\<open>None\<close> is \<^verbatim>\<open>OSError\<close>), sleeps, and child processes
  with their outcome.
\<close>

datatype effect =
    LogInfo message
  | LogError message
  | GetSize string "nat option"
  | Sleep nat
  | SubprocessRun "string list" proc_outcome

text \<open>
  The outside of one call of the handler: the successive results of
  \<^verbatim>\<open>os.path.getsize\<close>, and the outcome of \<^verbatim>\<open>subprocess.run\<close> for a command line.
\<close>

record world =
  size_readings :: "nat option list"
  subprocess_outcome :: "string list \<Rightarrow> proc_outcome"

subsection \<open>The stability wait (lines 42 to 52)\<close>

text \<open>
  The loop has no bound of its own. Over a finite sequence of readings it ends in one of
  three ways: two equal readings in a row (\<open>Stable\<close>, the \<^verbatim>\<open>break\<close>), a failed reading
  (\<open>FileUnavailable\<close>, the \<^verbatim>\<open>return\<close> of the handler), or the readings run out while the
  loop is still polling (\<open>StillPolling\<close>: the loop has not ended).
\<close>

datatype wait_result = Stable | FileUnavailable | StillPolling

fun wait_loop :: "string \<Rightarrow> string \<Rightarrow> int \<Rightarrow> nat option list \<Rightarrow> wait_result \<times> effect list" where
  "wait_loop file_path file_name file_size [] = (StillPolling, [])"
| "wait_loop file_path file_name file_size (None # rs) =
     (FileUnavailable, [GetSize file_path None, LogError (ErrorAccessing file_name)])"
| "wait_loop file_path file_name file_size (Some current_size # rs) =
     (if int current_size = file_size then (Stable, [GetSize file_path (Some current_size)])
      else (case wait_loop file_path file_name (int current_size) rs of
              (r, tr) \<Rightarrow> (r, GetSize file_path (Some current_size) # Sleep 1 # tr)))"

subsection \<open>The two stages (lines 54 to 80)\<close>

definition stage1_cmd :: "SVSHandler \<Rightarrow> string list" where
  "stage1_cmd self =
     [''python'', ''wsi_tis_detect.py'', ''--slide_folder'', input_dir self,
      ''--output_dir'', output_dir self]"

definition stage2_cmd :: "SVSHandler \<Rightarrow> string list" where
  "stage2_cmd self =
     [''python'', ''main.py'', ''--slide_folder'', input_dir self,
      ''--output_dir'', output_dir self]"

text \<open>\<^verbatim>\<open>subprocess.run(cmd, check=True)\<close>: the exception it raises, if any.\<close>

definition run_checked :: "world \<Rightarrow> string list \<Rightarrow> exn option" where
  "run_checked w cmd =
     (case subprocess_outcome w cmd of
        Returncode rc \<Rightarrow> if rc \<noteq> 0 then Some (CalledProcessError rc cmd) else None
      | Raises e \<Rightarrow> Some (OtherException e))"

text \<open>The body of the \<^verbatim>\<open>try\<close>: the exception that left it (if any), the handler, the effects.\<close>

definition try_body ::
  "SVSHandler \<Rightarrow> world \<Rightarrow> string \<Rightarrow> string \<Rightarrow> exn option \<times> SVSHandler \<times> effect list" where
  "try_body self w file_path file_name =
     (let tr1 = [LogInfo (RunningTissueDetection file_name),
                 SubprocessRun (stage1_cmd self) (subprocess_outcome w (stage1_cmd self))]
      in case run_checked w (stage1_cmd self) of
           Some e \<Rightarrow> (Some e, self, tr1)
         | None \<Rightarrow>
            (let tr2 = tr1 @ [LogInfo (RunningArtifactDetection file_name),
                       SubprocessRun (stage2_cmd self) (subprocess_outcome w (stage2_cmd self))]
             in case run_checked w (stage2_cmd self) of
                  Some e \<Rightarrow> (Some e, self, tr2)
                | None \<Rightarrow>
                    (None,
                     self\<lparr>processed_files := insert file_path (processed_files self)\<rparr>,
                     tr2 @ [LogInfo (SuccessfullyProcessed file_name)])))"

text \<open>The \<^verbatim>\<open>try\<close> with its two \<^verbatim>\<open>except\<close> clauses.\<close>

definition run_pipeline ::
  "SVSHandler \<Rightarrow> world \<Rightarrow> string \<Rightarrow> string \<Rightarrow> SVSHandler \<times> effect list" where
  "run_pipeline self w file_path file_name =
     (case try_body self w file_path file_name of
        (None, self', tr) \<Rightarrow> (self', tr)
      | (Some (CalledProcessError rc cmd), self', tr) \<Rightarrow>
          (self', tr @ [LogError (ErrorProcessing file_name (CalledProcessError rc cmd))])
      | (Some (OtherException e), self', tr) \<Rightarrow>
          (self', tr @ [LogError (UnexpectedError file_name (OtherException e))]))"

subsection \<open>\<^verbatim>\<open>SVSHandler.on_created\<close>\<close>

text \<open>
  \<open>Returned\<close>: the handler came back; \<open>Blocked\<close>: it is still in the polling loop when the
  readings run out.
\<close>

datatype status = Returned | Blocked

definition on_created ::
  "SVSHandler \<Rightarrow> event \<Rightarrow> world \<Rightarrow> status \<times> SVSHandler \<times> effect list" where
  "on_created self ev w =
     (if is_directory ev then (Returned, self, [])
      else if endswith (lower (src_path ev)) ''.svs'' then
        (let file_path = src_path ev; file_name = basename file_path in
           if file_path \<in> processed_files self
           then (Returned, self, [LogInfo (AlreadyProcessed file_name)])
           else
             (case wait_loop file_path file_name (- 1) (size_readings w) of
                (FileUnavailable, tr) \<Rightarrow>
                  (Returned, self, LogInfo (NewFileDetected file_name) # tr)
              | (StillPolling, tr) \<Rightarrow>
                  (Blocked, self, LogInfo (NewFileDetected file_name) # tr)
              | (Stable, tr) \<Rightarrow>
                  (case run_pipeline self w file_path file_name of
                     (self', tr') \<Rightarrow>
                       (Returned, self', LogInfo (NewFileDetected file_name) # tr @ tr'))))
      else (Returned, self, []))"

text \<open>
  The observer hands the queued creation events to the handler one at a time; an event is
  only handled once the call for the one before it has come back.
\<close>

fun run_events :: "SVSHandler \<Rightarrow> (event \<times> world) list \<Rightarrow> SVSHandler \<times> effect list list" where
  "run_events self [] = (self, [])"
| "run_events self ((ev, w) # rest) =
     (case on_created self ev w of
        (Returned, self', tr) \<Rightarrow>
          (case run_events self' rest of (self'', trs) \<Rightarrow> (self'', tr # trs))
      | (Blocked, self', tr) \<Rightarrow> (self', [tr]))"

text \<open>What a trace says: the size readings taken, and the child processes started.\<close>

fun readings_of :: "effect list \<Rightarrow> nat option list" where
  "readings_of [] = []"
| "readings_of (GetSize p r # tr) = r # readings_of tr"
| "readings_of (e # tr) = readings_of tr"

fun runs_of :: "effect list \<Rightarrow> (string list \<times> proc_outcome) list" where
  "runs_of [] = []"
| "runs_of (SubprocessRun cmd r # tr) = (cmd, r) # runs_of tr"
| "runs_of (e # tr) = runs_of tr"

section \<open>The report generator: \<^verbatim>\<open>GrandQCAnalyzer\<close>\<close>

text \<open>
  \<^verbatim>\<open>self.artifact_classes\<close>, a dictionary in insertion order: class index to class name.
\<close>

definition artifact_classes :: "(nat \<times> string) list" where
  "artifact_classes =
     [(1, ''Normal Tissue''), (2, ''Tissue Fold''), (3, ''Dark Spot/Foreign''),
      (4, ''Pen Marking''), (5, ''Air Bubble/Edge''), (6, ''Out of Focus''),
      (7, ''Background'')]"

text \<open>
  The mask \<open>msk\<close> is the array of pixel values of the image, flattened. \<^verbatim>\<open>np.sum(mask == c)\<close> and
  \<^verbatim>\<open>np.sum(mask != c)\<close> count pixels.
\<close>

definition count_eq :: "nat list \<Rightarrow> nat \<Rightarrow> int" where
  "count_eq msk c = int (length (filter (\<lambda>p. p = c) msk))"

definition count_ne :: "nat list \<Rightarrow> nat \<Rightarrow> int" where
  "count_ne msk c = int (length (filter (\<lambda>p. p \<noteq> c) msk))"

text \<open>
  The floating-point operations are those of the interpreter and of the array library, not
  of this program: they are parameters. A finite double is the rational number it denotes.
  \<open>truediv a b\<close> is \<^verbatim>\<open>a / b\<close> on two integer counts with \<open>b\<close> not zero, \<open>fmul x n\<close> is
  \<^verbatim>\<open>x * n\<close>, \<open>fround x d\<close> is \<^verbatim>\<open>round(x, d)\<close>.
\<close>

record float_ops =
  truediv :: "int \<Rightarrow> int \<Rightarrow> rat"
  fmul :: "rat \<Rightarrow> int \<Rightarrow> rat"
  fround :: "rat \<Rightarrow> int \<Rightarrow> rat"

text \<open>
  \<open>DivisionByZero\<close> marks a division that was evaluated with a zero divisor;
  \<open>KeyError\<close> is a failed dictionary lookup.
\<close>

datatype py_error = DivisionByZero | KeyError

definition divide_counts :: "float_ops \<Rightarrow> int \<Rightarrow> int \<Rightarrow> py_error + rat" where
  "divide_counts ops a b = (if b = 0 then Inl DivisionByZero else Inr (truediv ops a b))"

text \<open>
  Line 41: \<^verbatim>\<open>{self.artifact_classes[i]: 0.0 for i in range(1, 7)}\<close>, built key by key.
\<close>

fun zero_percentages ::
  "nat list \<Rightarrow> (string \<times> rat) list \<Rightarrow> py_error + (string \<times> rat) list" where
  "zero_percentages [] acc = Inr acc"
| "zero_percentages (i # is) acc =
     (case map_of artifact_classes i of
        None \<Rightarrow> Inl KeyError
      | Some class_name \<Rightarrow> zero_percentages is (AList.update class_name 0 acc))"

text \<open>Lines 44 to 49: the loop over \<^verbatim>\<open>self.artifact_classes.items()\<close>.\<close>

fun percentages_loop ::
  "float_ops \<Rightarrow> nat list \<Rightarrow> int \<Rightarrow> (nat \<times> string) list \<Rightarrow> (string \<times> rat) list \<Rightarrow>
     py_error + (string \<times> rat) list" where
  "percentages_loop ops msk total_tissue_pixels [] percentages = Inr percentages"
| "percentages_loop ops msk total_tissue_pixels ((class_idx, class_name) # items) percentages =
     (if class_idx \<noteq> 7 then
        (let pixels = count_eq msk class_idx in
           case divide_counts ops pixels total_tissue_pixels of
             Inl e \<Rightarrow> Inl e
           | Inr q \<Rightarrow>
               (let percentage = fmul ops q 100 in
                  percentages_loop ops msk total_tissue_pixels items
                    (AList.update class_name (fround ops percentage 2) percentages)))
      else percentages_loop ops msk total_tissue_pixels items percentages)"

text \<open>\<^verbatim>\<open>GrandQCAnalyzer.analyze_mask\<close>, from the pixel array on.\<close>

definition analyze_mask :: "float_ops \<Rightarrow> nat list \<Rightarrow> py_error + (string \<times> rat) list" where
  "analyze_mask ops msk =
     (let total_tissue_pixels = count_ne msk 7 in
        if total_tissue_pixels = 0 then zero_percentages [1..<7] []
        else percentages_loop ops msk total_tissue_pixels artifact_classes [])"

section \<open>Example inputs\<close>

text \<open>
  A watcher on \<^verbatim>\<open>/in\<close> writing to \<^verbatim>\<open>/out\<close>, the creation event of the file
  \<^verbatim>\<open>/in/slideA.svs\<close>, and an outside with given size readings and given outcomes of
  the two stage programs.
\<close>

definition watcher0 :: SVSHandler where
  "watcher0 = init ''/in'' ''/out''"

definition slideA :: event where
  "slideA = \<lparr>is_directory = False, src_path = ''/in/slideA.svs''\<rparr>"

definition stub_world :: "nat option list \<Rightarrow> proc_outcome \<Rightarrow> proc_outcome \<Rightarrow> world" where
  "stub_world rs r1 r2 =
     \<lparr>size_readings = rs,
      subprocess_outcome =
        (\<lambda>cmd. case cmd of
                 prog # script # args \<Rightarrow> if script = ''wsi_tis_detect.py'' then r1 else r2
               | _ \<Rightarrow> r2)\<rparr>"

text \<open>
  An instance of the floating-point operations for the examples: the arithmetic done
  exactly on the rationals, \<open>fround\<close> to the nearest multiple of \<open>10\<^sup>-\<^sup>d\<close>. It agrees with
  the arithmetic on doubles wherever every intermediate result is a double and nothing
  has to be rounded, as in \<^verbatim>\<open>50 / 100 * 100\<close>.
\<close>

definition exact_ops :: float_ops where
  "exact_ops =
     \<lparr>truediv = (\<lambda>a b. of_int a / of_int b),
      fmul = (\<lambda>x n. x * of_int n),
      fround = (\<lambda>x d. of_int (round (x * 10 ^ nat d)) / 10 ^ nat d)\<rparr>"

section \<open>Facts about the library calls\<close>

lemma char_eq_nat: "(c = d) = ((of_char c :: nat) = of_char d)"
  by auto

lemma of_char_lower_char:
  "(of_char (lower_char c) :: nat) =
     (if 65 \<le> (of_char c :: nat) \<and> (of_char c :: nat) \<le> 90 then of_char c + 32 else of_char c)"
  by (simp add: lower_char_def Let_def of_char_of)

lemma lower_char_s: "lower_char c = CHR ''s'' \<longleftrightarrow> c = CHR ''s'' \<or> c = CHR ''S''"
  unfolding char_eq_nat [of _ "CHR ''s''"] char_eq_nat [of _ "CHR ''S''"] of_char_lower_char
  by auto 

lemma lower_char_v: "lower_char c = CHR ''v'' \<longleftrightarrow> c = CHR ''v'' \<or> c = CHR ''V''"
  unfolding char_eq_nat [of _ "CHR ''v''"] char_eq_nat [of _ "CHR ''V''"] of_char_lower_char
  by auto 

lemma lower_char_dot: "lower_char c = CHR ''.'' \<longleftrightarrow> c = CHR ''.''"
  unfolding char_eq_nat [of _ "CHR ''.''"] of_char_lower_char
  by (simp) 

lemma endswith_iff: "endswith s suf \<longleftrightarrow> (\<exists>pre. s = pre @ suf)"
proof
  assume "endswith s suf"
  then have "s = take (length s - length suf) s @ suf"
    unfolding endswith_def by (metis append_take_drop_id)
  then show "\<exists>pre. s = pre @ suf" ..
next
  assume "\<exists>pre. s = pre @ suf"
  then show "endswith s suf" by (auto simp: endswith_def)
qed

lemma lower_svs:
  "endswith (lower p) ''.svs'' \<longleftrightarrow>
     (\<exists>pre a b c. p = pre @ [CHR ''.'', a, b, c] \<and> a \<in> {CHR ''s'', CHR ''S''}
        \<and> b \<in> {CHR ''v'', CHR ''V''} \<and> c \<in> {CHR ''s'', CHR ''S''})"
proof
  assume "endswith (lower p) ''.svs''"
  then obtain q where q: "map lower_char p = q @ ''.svs''"
    unfolding endswith_iff lower_def by blast
  then obtain pre suf where p: "p = pre @ suf" and "map lower_char suf = ''.svs''"
    by (auto simp: map_eq_append_conv)
  then obtain d a b c where "suf = [d, a, b, c]" "lower_char d = CHR ''.''"
      "lower_char a = CHR ''s''" "lower_char b = CHR ''v''" "lower_char c = CHR ''s''"
    by (auto simp: map_eq_Cons_conv)
  with p show "\<exists>pre a b c. p = pre @ [CHR ''.'', a, b, c] \<and> a \<in> {CHR ''s'', CHR ''S''}
        \<and> b \<in> {CHR ''v'', CHR ''V''} \<and> c \<in> {CHR ''s'', CHR ''S''}"
    unfolding lower_char_s lower_char_v lower_char_dot by blast
next
  assume "\<exists>pre a b c. p = pre @ [CHR ''.'', a, b, c] \<and> a \<in> {CHR ''s'', CHR ''S''}
        \<and> b \<in> {CHR ''v'', CHR ''V''} \<and> c \<in> {CHR ''s'', CHR ''S''}"
  then obtain pre a b c where p: "p = pre @ [CHR ''.'', a, b, c]"
    and "lower_char a = CHR ''s''" "lower_char b = CHR ''v''" "lower_char c = CHR ''s''"
    unfolding lower_char_s lower_char_v by blast
  moreover have "lower_char CHR ''.'' = CHR ''.''" unfolding lower_char_dot ..
  ultimately have "lower p = map lower_char pre @ ''.svs''"
    by (simp add: lower_def)
  then show "endswith (lower p) ''.svs''" unfolding endswith_iff by blast
qed

section \<open>Facts about the stability wait\<close>

lemma stage_cmds_differ: "stage1_cmd self \<noteq> stage2_cmd self'"
  by (simp add: stage1_cmd_def stage2_cmd_def)

lemma readings_of_append: "readings_of (xs @ ys) = readings_of xs @ readings_of ys"
  by (induction xs rule: readings_of.induct) simp_all

lemma runs_of_append: "runs_of (xs @ ys) = runs_of xs @ runs_of ys"
  by (induction xs rule: runs_of.induct) simp_all

lemma wait_loop_runs: "runs_of (snd (wait_loop p f fs rs)) = []"
  by (induction p f fs rs rule: wait_loop.induct) (auto split: prod.splits)

lemma wait_loop_Stable_D:
  "wait_loop p f fs rs = (Stable, tr) \<Longrightarrow>
     \<exists>pre s rest. rs = map Some pre @ Some s # rest \<and> distinct_adj (fs # map int pre)
        \<and> last (fs # map int pre) = int s \<and> readings_of tr = map Some (pre @ [s])"
proof (induction p f fs rs arbitrary: tr rule: wait_loop.induct)
  case (3 p f fs c rs)
  show ?case
  proof (cases "int c = fs")
    case True
    with "3.prems" have "readings_of tr = map Some ([] @ [c])" by auto
    with True show ?thesis by fastforce
  next
    case False
    obtain r tr' where w: "wait_loop p f (int c) rs = (r, tr')"
      by (cases "wait_loop p f (int c) rs")
    with False "3.prems" have r: "r = Stable" and tr: "tr = GetSize p (Some c) # Sleep 1 # tr'"
      by auto
    from "3.IH" [OF False] w r obtain pre s rest where
      *: "rs = map Some pre @ Some s # rest" "distinct_adj (int c # map int pre)"
         "last (int c # map int pre) = int s" "readings_of tr' = map Some (pre @ [s])"
      by blast
    have "Some c # rs = map Some (c # pre) @ Some s # rest" using * by simp
    moreover have "distinct_adj (fs # map int (c # pre))" using * False by simp
    moreover have "last (fs # map int (c # pre)) = int s" using * by simp
    moreover have "readings_of tr = map Some ((c # pre) @ [s])" using * tr by simp
    ultimately show ?thesis by blast
  qed
qed simp_all

lemma wait_loop_Stable_I:
  "distinct_adj (fs # map int pre) \<Longrightarrow> last (fs # map int pre) = int s \<Longrightarrow>
     fst (wait_loop p f fs (map Some pre @ Some s # rest)) = Stable \<and>
     readings_of (snd (wait_loop p f fs (map Some pre @ Some s # rest))) = map Some (pre @ [s])"
proof (induction pre arbitrary: fs)
  case Nil
  then show ?case by simp
next
  case (Cons c pre)
  then have ne: "int c \<noteq> fs" and d: "distinct_adj (int c # map int pre)"
    and l: "last (int c # map int pre) = int s" by auto
  from Cons.IH [OF d l] ne show ?case by (auto split: prod.splits)
qed

lemma wait_loop_Unavailable_iff:
  "fst (wait_loop p f fs rs) = FileUnavailable \<longleftrightarrow> None \<in> set (readings_of (snd (wait_loop p f fs rs)))"
  by (induction p f fs rs rule: wait_loop.induct) (auto split: prod.splits)

lemma wait_loop_Unavailable_last:
  "wait_loop p f fs rs = (FileUnavailable, tr) \<Longrightarrow> tr \<noteq> [] \<and> last tr = LogError (ErrorAccessing f)"
  by (induction p f fs rs arbitrary: tr rule: wait_loop.induct) (auto split: prod.splits if_splits)

lemma wait_loop_prefix:
  "\<exists>rest. rs = readings_of (snd (wait_loop p f fs rs)) @ rest"
  by (induction p f fs rs rule: wait_loop.induct) (auto split: prod.splits)

lemma distinct_adj_int: "distinct_adj (map int xs) = distinct_adj xs"
  by (rule distinct_adj_map_iff) (simp add: inj_on_def)

lemma wait_loop_Stable_pair:
  assumes "wait_loop p f (- 1) rs = (Stable, tr)"
  shows "\<exists>pre s rest. rs = map Some (pre @ [s, s]) @ rest \<and> distinct_adj (pre @ [s])
           \<and> readings_of tr = map Some (pre @ [s, s])"
proof -
  from wait_loop_Stable_D [OF assms] obtain pre s rest where
    *: "rs = map Some pre @ Some s # rest" "distinct_adj (- 1 # map int pre)"
       "last (- 1 # map int pre) = int s" "readings_of tr = map Some (pre @ [s])"
    by blast
  from *(3) have ne: "pre \<noteq> []" by (cases pre) auto
  then obtain pre' c where pre: "pre = pre' @ [c]" by (metis rev_exhaust)
  with *(3) have c: "c = s" by (simp add: last_map)
  from *(2) have "distinct_adj (map int pre)" by (cases pre) (auto)
  then have "distinct_adj (pre' @ [s])" using pre c by (simp only: distinct_adj_int)
  moreover have "rs = map Some (pre' @ [s, s]) @ rest" using * pre c by simp
  moreover have "readings_of tr = map Some (pre' @ [s, s])" using * pre c by simp
  ultimately show ?thesis by blast
qed

lemma wait_loop_pair_Stable:
  assumes "distinct_adj (pre @ [s])"
  shows "fst (wait_loop p f (- 1) (map Some (pre @ [s, s]) @ rest)) = Stable \<and>
     readings_of (snd (wait_loop p f (- 1) (map Some (pre @ [s, s]) @ rest))) = map Some (pre @ [s, s])"
proof -
  have "distinct_adj (map int (pre @ [s]))" using assms by (simp only: distinct_adj_int)
  then have "distinct_adj (- 1 # map int (pre @ [s]))"
    by (cases pre) (auto)
  moreover have "last (- 1 # map int (pre @ [s])) = int s" by simp
  ultimately show ?thesis using wait_loop_Stable_I [of "- 1" "pre @ [s]" s p f rest] by simp
qed

section \<open>Facts about the handler\<close>

lemma run_pipeline_ok:
  assumes "subprocess_outcome w (stage1_cmd self) = Returncode 0"
    and "subprocess_outcome w (stage2_cmd self) = Returncode 0"
  shows "run_pipeline self w p fn =
    (self\<lparr>processed_files := insert p (processed_files self)\<rparr>,
     [LogInfo (RunningTissueDetection fn), SubprocessRun (stage1_cmd self) (Returncode 0),
      LogInfo (RunningArtifactDetection fn), SubprocessRun (stage2_cmd self) (Returncode 0),
      LogInfo (SuccessfullyProcessed fn)])"
  using assms by (simp add: run_pipeline_def try_body_def run_checked_def)

lemma run_pipeline_fail1:
  assumes "subprocess_outcome w (stage1_cmd self) = r" and "r \<noteq> Returncode 0"
  shows "run_pipeline self w p fn =
    (self,
     [LogInfo (RunningTissueDetection fn), SubprocessRun (stage1_cmd self) r,
      LogError (case r of
          Returncode rc \<Rightarrow> ErrorProcessing fn (CalledProcessError rc (stage1_cmd self))
        | Raises e \<Rightarrow> UnexpectedError fn (OtherException e))])"
  using assms by (cases r) (simp_all add: run_pipeline_def try_body_def run_checked_def)

lemma run_pipeline_fail2:
  assumes "subprocess_outcome w (stage1_cmd self) = Returncode 0"
    and "subprocess_outcome w (stage2_cmd self) = r" and "r \<noteq> Returncode 0"
  shows "run_pipeline self w p fn =
    (self,
     [LogInfo (RunningTissueDetection fn), SubprocessRun (stage1_cmd self) (Returncode 0),
      LogInfo (RunningArtifactDetection fn), SubprocessRun (stage2_cmd self) r,
      LogError (case r of
          Returncode rc \<Rightarrow> ErrorProcessing fn (CalledProcessError rc (stage2_cmd self))
        | Raises e \<Rightarrow> UnexpectedError fn (OtherException e))])"
  using assms by (cases r) (simp_all add: run_pipeline_def try_body_def run_checked_def)

lemma run_pipeline_cases:
  obtains (ok) "subprocess_outcome w (stage1_cmd self) = Returncode 0"
               "subprocess_outcome w (stage2_cmd self) = Returncode 0"
        | (fail1) "subprocess_outcome w (stage1_cmd self) \<noteq> Returncode 0"
        | (fail2) "subprocess_outcome w (stage1_cmd self) = Returncode 0"
               "subprocess_outcome w (stage2_cmd self) \<noteq> Returncode 0"
  by blast

lemma on_created_filtered:
  "is_directory ev \<or> \<not> endswith (lower (src_path ev)) ''.svs'' \<Longrightarrow>
     on_created self ev w = (Returned, self, [])"
  by (auto simp: on_created_def)

lemma on_created_duplicate:
  "\<not> is_directory ev \<Longrightarrow> endswith (lower (src_path ev)) ''.svs'' \<Longrightarrow>
   src_path ev \<in> processed_files self \<Longrightarrow>
     on_created self ev w = (Returned, self, [LogInfo (AlreadyProcessed (basename (src_path ev)))])"
  by (simp add: on_created_def)

lemma on_created_new:
  "\<not> is_directory ev \<Longrightarrow> endswith (lower (src_path ev)) ''.svs'' \<Longrightarrow>
   src_path ev \<notin> processed_files self \<Longrightarrow>
     on_created self ev w =
       (case wait_loop (src_path ev) (basename (src_path ev)) (- 1) (size_readings w) of
          (FileUnavailable, tr) \<Rightarrow>
            (Returned, self, LogInfo (NewFileDetected (basename (src_path ev))) # tr)
        | (StillPolling, tr) \<Rightarrow>
            (Blocked, self, LogInfo (NewFileDetected (basename (src_path ev))) # tr)
        | (Stable, tr) \<Rightarrow>
            (case run_pipeline self w (src_path ev) (basename (src_path ev)) of
               (self', tr') \<Rightarrow>
                 (Returned, self', LogInfo (NewFileDetected (basename (src_path ev))) # tr @ tr')))"
  by (simp add: on_created_def Let_def)

text \<open>The three ways a call can go, as a case rule.\<close>

lemma on_created_cases:
  obtains (filtered) "is_directory ev \<or> \<not> endswith (lower (src_path ev)) ''.svs''"
  | (duplicate) "\<not> is_directory ev" "endswith (lower (src_path ev)) ''.svs''"
       "src_path ev \<in> processed_files self"
  | (new) "\<not> is_directory ev" "endswith (lower (src_path ev)) ''.svs''"
       "src_path ev \<notin> processed_files self"
  by blast

lemma run_pipeline_state:
  "run_pipeline self w p fn = (self', tr) \<Longrightarrow>
     self' = (if runs_of tr = [(stage1_cmd self, Returncode 0), (stage2_cmd self, Returncode 0)]
              then self\<lparr>processed_files := insert p (processed_files self)\<rparr> else self)"
proof (cases rule: run_pipeline_cases [where w = w and self = self])
  case ok
  assume "run_pipeline self w p fn = (self', tr)"
  with run_pipeline_ok [OF ok] show ?thesis by auto
next
  case fail1
  assume "run_pipeline self w p fn = (self', tr)"
  with run_pipeline_fail1 [OF refl fail1] fail1 show ?thesis by auto
next
  case fail2
  assume "run_pipeline self w p fn = (self', tr)"
  with run_pipeline_fail2 [OF fail2(1) refl fail2(2)] fail2 show ?thesis by (auto simp: stage_cmds_differ)
qed

lemma run_pipeline_readings: "readings_of (snd (run_pipeline self w p fn)) = []"
proof (cases rule: run_pipeline_cases [where w = w and self = self])
  case ok
  show ?thesis by (simp add: run_pipeline_ok [OF ok])
next
  case fail1
  show ?thesis by (simp add: run_pipeline_fail1 [OF refl fail1])
next
  case fail2
  show ?thesis by (simp add: run_pipeline_fail2 [OF fail2(1) refl fail2(2)])
qed

text \<open>The handler only ever changes the processed set, by adding the path of the event,
  and it does so exactly when the two stages both returned zero.\<close>

lemma on_created_state:
  assumes "on_created self ev w = (st, self', tr)"
  shows "self' = (if runs_of tr = [(stage1_cmd self, Returncode 0), (stage2_cmd self, Returncode 0)]
              then self\<lparr>processed_files := insert (src_path ev) (processed_files self)\<rparr> else self)"
proof (cases rule: on_created_cases [where ev = ev and self = self])
  case filtered
  with assms show ?thesis by (simp add: on_created_filtered)
next
  case duplicate
  with assms show ?thesis by (auto simp add: on_created_duplicate)
next
  case new
  obtain r wt where wl: "wait_loop (src_path ev) (basename (src_path ev)) (- 1) (size_readings w) = (r, wt)"
    by (cases "wait_loop (src_path ev) (basename (src_path ev)) (- 1) (size_readings w)")
  have wr: "runs_of wt = []" using wait_loop_runs [of "src_path ev" "basename (src_path ev)" "- 1" "size_readings w"] wl by simp
  show ?thesis
  proof (cases r)
    case Stable
    obtain s2 pt where rp: "run_pipeline self w (src_path ev) (basename (src_path ev)) = (s2, pt)"
      by (cases "run_pipeline self w (src_path ev) (basename (src_path ev))")
    from assms new wl Stable rp have "self' = s2" "tr = LogInfo (NewFileDetected (basename (src_path ev))) # wt @ pt"
      by (simp_all add: on_created_new)
    with run_pipeline_state [OF rp] wr show ?thesis by (simp add: runs_of_append)
  next
    case FileUnavailable
    with assms new wl wr show ?thesis by (auto simp add: on_created_new)
  next
    case StillPolling
    with assms new wl wr show ?thesis by (auto simp add: on_created_new)
  qed
qed

lemma on_created_fields:
  assumes "on_created self ev w = (st, self', tr)"
  shows "input_dir self' = input_dir self" and "output_dir self' = output_dir self"
    and "processed_files self \<subseteq> processed_files self'"
    and "processed_files self' \<subseteq> insert (src_path ev) (processed_files self)"
  using on_created_state [OF assms] by (auto split: if_splits)

lemma on_created_cmds:
  assumes "on_created self ev w = (st, self', tr)"
  shows "stage1_cmd self' = stage1_cmd self" and "stage2_cmd self' = stage2_cmd self"
  using on_created_fields(1,2) [OF assms] by (simp_all add: stage1_cmd_def stage2_cmd_def)

lemma on_created_processed:
  assumes "src_path ev \<in> processed_files self"
  shows "\<exists>tr. on_created self ev w = (Returned, self, tr) \<and> runs_of tr = [] \<and> readings_of tr = []
     \<and> (\<not> is_directory ev \<and> endswith (lower (src_path ev)) ''.svs'' \<longrightarrow>
          tr = [LogInfo (AlreadyProcessed (basename (src_path ev)))])"
proof (cases rule: on_created_cases [where ev = ev and self = self])
  case filtered
  then show ?thesis
    using assms by (auto simp add: on_created_def)
next
  case duplicate
  then show ?thesis by (simp add: on_created_duplicate)
next
  case new
  with assms show ?thesis by simp
qed

text \<open>A call that started a child process went through the whole of the handler.\<close>

lemma on_created_pipeline:
  assumes "on_created self ev w = (st, self', tr)" and "runs_of tr \<noteq> []"
  shows "\<exists>wt pt. \<not> is_directory ev \<and> endswith (lower (src_path ev)) ''.svs''
      \<and> src_path ev \<notin> processed_files self
      \<and> wait_loop (src_path ev) (basename (src_path ev)) (- 1) (size_readings w) = (Stable, wt)
      \<and> run_pipeline self w (src_path ev) (basename (src_path ev)) = (self', pt)
      \<and> tr = LogInfo (NewFileDetected (basename (src_path ev))) # wt @ pt
      \<and> runs_of tr = runs_of pt \<and> st = Returned"
proof (cases rule: on_created_cases [where ev = ev and self = self])
  case filtered
  with assms show ?thesis by (simp add: on_created_filtered)
next
  case duplicate
  with assms show ?thesis by (auto simp add: on_created_duplicate)
next
  case new
  obtain r wt where wl: "wait_loop (src_path ev) (basename (src_path ev)) (- 1) (size_readings w) = (r, wt)"
    by (cases "wait_loop (src_path ev) (basename (src_path ev)) (- 1) (size_readings w)")
  have wr: "runs_of wt = []"
    using wait_loop_runs [of "src_path ev" "basename (src_path ev)" "- 1" "size_readings w"] wl
    by simp
  show ?thesis
  proof (cases r)
    case Stable
    obtain s2 pt where rp: "run_pipeline self w (src_path ev) (basename (src_path ev)) = (s2, pt)"
      by (cases "run_pipeline self w (src_path ev) (basename (src_path ev))")
    from assms new wl Stable rp have "self' = s2" "st = Returned"
      "tr = LogInfo (NewFileDetected (basename (src_path ev))) # wt @ pt"
      by (simp_all add: on_created_new)
    with new wl Stable rp wr show ?thesis by (simp add: runs_of_append)
  next
    case FileUnavailable
    with assms new wl wr show ?thesis by (auto simp add: on_created_new)
  next
    case StillPolling
    with assms new wl wr show ?thesis by (auto simp add: on_created_new)
  qed
qed

lemma run_pipeline_runs_hd:
  "\<exists>rest. runs_of (snd (run_pipeline self w p fn))
      = (stage1_cmd self, subprocess_outcome w (stage1_cmd self)) # rest"
proof (cases rule: run_pipeline_cases [where w = w and self = self])
  case ok
  show ?thesis by (simp add: run_pipeline_ok [OF ok] ok)
next
  case fail1
  show ?thesis by (simp add: run_pipeline_fail1 [OF refl fail1])
next
  case fail2
  show ?thesis by (simp add: run_pipeline_fail2 [OF fail2(1) refl fail2(2)] fail2(1))
qed

text \<open>A child process that did not return zero: nothing is recorded.\<close>

lemma run_pipeline_failed:
  assumes "run_pipeline self w p fn = (self', pt)" and "(cmd, r) \<in> set (runs_of pt)"
    and "r \<noteq> Returncode 0"
  shows "self' = self"
proof (cases rule: run_pipeline_cases [where w = w and self = self])
  case ok
  from assms show ?thesis unfolding run_pipeline_ok [OF ok] by auto
next
  case fail1
  from assms show ?thesis unfolding run_pipeline_fail1 [OF refl fail1] by simp
next
  case fail2
  from assms show ?thesis unfolding run_pipeline_fail2 [OF fail2(1) refl fail2(2)] by simp
qed

lemma run_pipeline_stage1_failed:
  assumes "run_pipeline self w p fn = (self', pt)"
    and "(stage1_cmd self, Returncode rc) \<in> set (runs_of pt)" and "rc \<noteq> 0"
  shows "self' = self \<and> runs_of pt = [(stage1_cmd self, Returncode rc)]
    \<and> last pt = LogError (ErrorProcessing fn (CalledProcessError rc (stage1_cmd self)))"
proof (cases rule: run_pipeline_cases [where w = w and self = self])
  case ok
  from assms show ?thesis unfolding run_pipeline_ok [OF ok] by (auto simp: stage_cmds_differ)
next
  case fail1
  from assms show ?thesis unfolding run_pipeline_fail1 [OF refl fail1]
    by (cases "subprocess_outcome w (stage1_cmd self)") auto
next
  case fail2
  from assms show ?thesis unfolding run_pipeline_fail2 [OF fail2(1) refl fail2(2)]
    by (auto simp: stage_cmds_differ)
qed

text \<open>A path that is not in the set gets past the duplicate check.\<close>

lemma on_created_fresh:
  assumes "\<not> is_directory ev" and "endswith (lower (src_path ev)) ''.svs''"
    and "src_path ev \<notin> processed_files self"
  shows "\<exists>tr2. snd (snd (on_created self ev w)) = LogInfo (NewFileDetected (basename (src_path ev))) # tr2"
    and "fst (wait_loop (src_path ev) (basename (src_path ev)) (- 1) (size_readings w)) = Stable \<Longrightarrow>
      \<exists>rest. runs_of (snd (snd (on_created self ev w)))
         = (stage1_cmd self, subprocess_outcome w (stage1_cmd self)) # rest"
proof -
  obtain r wt where wl: "wait_loop (src_path ev) (basename (src_path ev)) (- 1) (size_readings w) = (r, wt)"
    by (cases "wait_loop (src_path ev) (basename (src_path ev)) (- 1) (size_readings w)")
  have wr: "runs_of wt = []"
    using wait_loop_runs [of "src_path ev" "basename (src_path ev)" "- 1" "size_readings w"] wl
    by simp
  obtain s2 pt where rp: "run_pipeline self w (src_path ev) (basename (src_path ev)) = (s2, pt)"
    by (cases "run_pipeline self w (src_path ev) (basename (src_path ev))")
  show "\<exists>tr2. snd (snd (on_created self ev w)) = LogInfo (NewFileDetected (basename (src_path ev))) # tr2"
    using assms wl rp by (cases r) (simp_all add: on_created_new)
  assume "fst (wait_loop (src_path ev) (basename (src_path ev)) (- 1) (size_readings w)) = Stable"
  with wl have "r = Stable" by simp
  with assms wl rp wr have "runs_of (snd (snd (on_created self ev w))) = runs_of pt"
    by (simp add: on_created_new runs_of_append)
  with run_pipeline_runs_hd [of self w "src_path ev" "basename (src_path ev)"] rp
  show "\<exists>rest. runs_of (snd (snd (on_created self ev w)))
         = (stage1_cmd self, subprocess_outcome w (stage1_cmd self)) # rest"
    by simp
qed

lemma run_events_fields:
  "run_events self evs = (self', trs) \<Longrightarrow>
     input_dir self' = input_dir self \<and> output_dir self' = output_dir self
     \<and> processed_files self \<subseteq> processed_files self'"
proof (induction evs arbitrary: self self' trs)
  case Nil
  then show ?case by simp
next
  case (Cons e evs)
  obtain ev w where e: "e = (ev, w)" by (cases e)
  obtain st s1 tr where oc: "on_created self ev w = (st, s1, tr)"
    by (cases "on_created self ev w") 
  note f = on_created_fields [OF oc]
  show ?case
  proof (cases st)
    case Returned
    obtain s2 trs2 where re: "run_events s1 evs = (s2, trs2)" by (cases "run_events s1 evs")
    with Cons.prems e oc Returned have "self' = s2" by simp
    with Cons.IH [OF re] f show ?thesis by auto
  next
    case Blocked
    with Cons.prems e oc have "self' = s1" by simp
    with f show ?thesis by auto
  qed
qed

text \<open>Every path in the set got there by a call for that path in which both stages returned zero.\<close>

lemma run_events_members:
  "run_events self evs = (self', trs) \<Longrightarrow> p \<in> processed_files self' \<Longrightarrow>
     p \<in> processed_files self \<or>
     (\<exists>k. k < length trs \<and> k < length evs \<and> src_path (fst (evs ! k)) = p
        \<and> runs_of (trs ! k) = [(stage1_cmd self, Returncode 0), (stage2_cmd self, Returncode 0)])"
proof (induction evs arbitrary: self self' trs)
  case Nil
  then show ?case by simp
next
  case (Cons e evs)
  obtain ev w where e: "e = (ev, w)" by (cases e)
  obtain st s1 tr where oc: "on_created self ev w = (st, s1, tr)"
    by (cases "on_created self ev w") 
  note s = on_created_state [OF oc]
  note c = on_created_cmds [OF oc]
  show ?case
  proof (cases st)
    case Returned
    obtain s2 trs2 where re: "run_events s1 evs = (s2, trs2)" by (cases "run_events s1 evs")
    with Cons.prems e oc Returned have eq: "self' = s2" "trs = tr # trs2" by simp_all
    from Cons.IH [OF re] Cons.prems(2) eq c
    consider (old) "p \<in> processed_files s1"
      | (later) k where "k < length trs2" "k < length evs" "src_path (fst (evs ! k)) = p"
         "runs_of (trs2 ! k) = [(stage1_cmd self, Returncode 0), (stage2_cmd self, Returncode 0)]"
      by auto
    then show ?thesis
    proof cases
      case old
      show ?thesis
      proof (cases "p \<in> processed_files self")
        case True
        then show ?thesis ..
      next
        case False
        with old s have "src_path ev = p"
          "runs_of tr = [(stage1_cmd self, Returncode 0), (stage2_cmd self, Returncode 0)]"
          by (auto split: if_splits)
        then have "0 < length trs \<and> 0 < length (e # evs) \<and> src_path (fst ((e # evs) ! 0)) = p
          \<and> runs_of (trs ! 0) = [(stage1_cmd self, Returncode 0), (stage2_cmd self, Returncode 0)]"
          using eq e by simp
        then show ?thesis by blast
      qed
    next
      case later
      then have "Suc k < length trs \<and> Suc k < length (e # evs)
          \<and> src_path (fst ((e # evs) ! Suc k)) = p
          \<and> runs_of (trs ! Suc k) = [(stage1_cmd self, Returncode 0), (stage2_cmd self, Returncode 0)]"
        using eq by simp
      then show ?thesis by blast
    qed
  next
    case Blocked
    with Cons.prems e oc have eq: "self' = s1" "trs = [tr]" by simp_all
    show ?thesis
    proof (cases "p \<in> processed_files self")
      case True
      then show ?thesis ..
    next
      case False
      with Cons.prems(2) eq s have "src_path ev = p"
        "runs_of tr = [(stage1_cmd self, Returncode 0), (stage2_cmd self, Returncode 0)]"
        by (auto split: if_splits)
      then have "0 < length trs \<and> 0 < length (e # evs) \<and> src_path (fst ((e # evs) ! 0)) = p
        \<and> runs_of (trs ! 0) = [(stage1_cmd self, Returncode 0), (stage2_cmd self, Returncode 0)]"
        using eq e by simp
      then show ?thesis by blast
    qed
  qed
qed

section \<open>The claims about the stability wait\<close>

text \<open>
  C1, as the code has it. The wait declares the file stable exactly at the first reading
  that equals the reading just before it: if it ends \<open>Stable\<close>, the readings it took are
  \<open>pre @ [s, s]\<close> with no two neighbours of \<open>pre @ [s]\<close> equal, and on any such sequence
  it ends \<open>Stable\<close> having read exactly that much. On the readings 10, 10, 20, 20, 20 it
  declares the file stable at the second reading, at size 10, and reads no further.
\<close>

theorem wait_loop_stable_at_first_equal_pair:
  "(wait_loop p f (- 1) rs = (Stable, tr) \<longrightarrow>
      (\<exists>pre s rest. rs = map Some (pre @ [s, s]) @ rest \<and> distinct_adj (pre @ [s])
          \<and> readings_of tr = map Some (pre @ [s, s])))
   \<and> (distinct_adj (pre @ [s]) \<longrightarrow>
        fst (wait_loop p f (- 1) (map Some (pre @ [s, s]) @ rest)) = Stable
        \<and> readings_of (snd (wait_loop p f (- 1) (map Some (pre @ [s, s]) @ rest)))
            = map Some (pre @ [s, s]))
   \<and> wait_loop p f (- 1) [Some 10, Some 10, Some 20, Some 20, Some 20]
        = (Stable, [GetSize p (Some 10), Sleep 1, GetSize p (Some 10)])"
proof (intro conjI impI)
  assume "wait_loop p f (- 1) rs = (Stable, tr)"
  then show "\<exists>pre s rest. rs = map Some (pre @ [s, s]) @ rest \<and> distinct_adj (pre @ [s])
          \<and> readings_of tr = map Some (pre @ [s, s])"
    by (rule wait_loop_Stable_pair)
next
  assume d: "distinct_adj (pre @ [s])"
  from wait_loop_pair_Stable [OF d]
  show "fst (wait_loop p f (- 1) (map Some (pre @ [s, s]) @ rest)) = Stable"
    and "readings_of (snd (wait_loop p f (- 1) (map Some (pre @ [s, s]) @ rest)))
            = map Some (pre @ [s, s])"
    by blast+
next
  show "wait_loop p f (- 1) [Some 10, Some 10, Some 20, Some 20, Some 20]
        = (Stable, [GetSize p (Some 10), Sleep 1, GetSize p (Some 10)])"
    by simp
qed

text \<open>The theorem at the readings 5, 7, 7, 9.\<close>

theorem wait_loop_stable_at_first_equal_pair_witness:
  "wait_loop ''/in/a.svs'' ''a.svs'' (- 1) [Some 5, Some 7, Some 7, Some 9]
     = (Stable, [GetSize ''/in/a.svs'' (Some 5), Sleep 1, GetSize ''/in/a.svs'' (Some 7), Sleep 1,
                 GetSize ''/in/a.svs'' (Some 7)])
   \<and> (\<exists>pre s rest. [Some 5, Some 7, Some 7, Some 9] = map Some (pre @ [s, s]) @ rest
          \<and> distinct_adj (pre @ [s])
          \<and> readings_of [GetSize ''/in/a.svs'' (Some 5), Sleep 1, GetSize ''/in/a.svs'' (Some 7),
                Sleep 1, GetSize ''/in/a.svs'' (Some 7)] = map Some (pre @ [s, s]))
   \<and> distinct_adj ([5] @ [7 :: nat])
   \<and> fst (wait_loop ''/in/a.svs'' ''a.svs'' (- 1) (map Some ([5] @ [7, 7]) @ [Some 9])) = Stable
   \<and> readings_of (snd (wait_loop ''/in/a.svs'' ''a.svs'' (- 1) (map Some ([5] @ [7, 7]) @ [Some 9])))
        = map Some ([5] @ [7, 7])"
proof -
  let ?tr = "[GetSize ''/in/a.svs'' (Some 5), Sleep 1, GetSize ''/in/a.svs'' (Some 7), Sleep 1,
                 GetSize ''/in/a.svs'' (Some 7)]"
  have run: "wait_loop ''/in/a.svs'' ''a.svs'' (- 1) [Some 5, Some 7, Some 7, Some 9] = (Stable, ?tr)"
    by simp
  have d: "distinct_adj ([5] @ [7 :: nat])" by simp
  note inst = wait_loop_stable_at_first_equal_pair
    [of "''/in/a.svs''" "''a.svs''" "[Some 5, Some 7, Some 7, Some 9]" ?tr "[5]" 7 "[Some 9]"]
  from inst run have "\<exists>pre s rest. [Some 5, Some 7, Some 7, Some 9] = map Some (pre @ [s, s]) @ rest
          \<and> distinct_adj (pre @ [s]) \<and> readings_of ?tr = map Some (pre @ [s, s])"
    by blast
  moreover from inst d have
    "fst (wait_loop ''/in/a.svs'' ''a.svs'' (- 1) (map Some ([5] @ [7, 7]) @ [Some 9])) = Stable
     \<and> readings_of (snd (wait_loop ''/in/a.svs'' ''a.svs'' (- 1) (map Some ([5] @ [7, 7]) @ [Some 9])))
        = map Some ([5] @ [7, 7])"
    by blast
  ultimately show ?thesis using run d by blast
qed

text \<open>
  C1 as stated fails: on 10, 10, 20, 20, 20 the wait is over after the two readings of 10,
  and the size 20 is never read.
\<close>

theorem wait_loop_returns_on_transient_plateau_counterexample:
  "fst (wait_loop ''/in/slideA.svs'' ''slideA.svs'' (- 1)
          [Some 10, Some 10, Some 20, Some 20, Some 20]) = Stable
   \<and> readings_of (snd (wait_loop ''/in/slideA.svs'' ''slideA.svs'' (- 1)
          [Some 10, Some 10, Some 20, Some 20, Some 20])) = [Some 10, Some 10]
   \<and> Some 20 \<notin> set (readings_of (snd (wait_loop ''/in/slideA.svs'' ''slideA.svs'' (- 1)
          [Some 10, Some 10, Some 20, Some 20, Some 20])))"
  by simp

section \<open>The claims about the handler\<close>

text \<open>
  C2. Once a creation event for a path has gone through with both stages returning zero,
  the path is in the processed set, and whatever events are handled in between, a later
  creation event for the same path returns at once: no child process is started, no size is
  read, and the handler is left exactly as it was (the call only logs that the file was
  already processed).
\<close>

theorem completed_path_never_reprocessed:
  assumes "on_created self ev w = (st, self1, tr1)"
    and "runs_of tr1 = [(stage1_cmd self, Returncode 0), (stage2_cmd self, Returncode 0)]"
    and "run_events self1 evs = (self2, trs)"
    and "src_path ev' = src_path ev"
  shows "src_path ev \<in> processed_files self1 \<and>
    (\<exists>tr'. on_created self2 ev' w' = (Returned, self2, tr') \<and> runs_of tr' = []
        \<and> readings_of tr' = []
        \<and> (\<not> is_directory ev' \<longrightarrow> tr' = [LogInfo (AlreadyProcessed (basename (src_path ev)))]))"
proof -
  from on_created_state [OF assms(1)] assms(2)
  have in1: "src_path ev \<in> processed_files self1" by simp
  with run_events_fields [OF assms(3)] assms(4)
  have in2: "src_path ev' \<in> processed_files self2" by auto
  from on_created_pipeline [OF assms(1)] assms(2,4)
  have "endswith (lower (src_path ev')) ''.svs''" by auto
  with on_created_processed [OF in2, of w'] assms(4) in1 show ?thesis by auto
qed

text \<open>
  The theorem on \<^verbatim>\<open>slideA.svs\<close>, whose size settles at 1000 with both stages returning
  zero; then a second event for it, and a third.
\<close>

theorem completed_path_never_reprocessed_witness:
  "on_created watcher0 slideA (stub_world [Some 1000, Some 1000] (Returncode 0) (Returncode 0))
     = (Returned, watcher0\<lparr>processed_files := {''/in/slideA.svs''}\<rparr>,
        [LogInfo (NewFileDetected ''slideA.svs''),
         GetSize ''/in/slideA.svs'' (Some 1000), Sleep 1, GetSize ''/in/slideA.svs'' (Some 1000),
         LogInfo (RunningTissueDetection ''slideA.svs''),
         SubprocessRun (stage1_cmd watcher0) (Returncode 0),
         LogInfo (RunningArtifactDetection ''slideA.svs''),
         SubprocessRun (stage2_cmd watcher0) (Returncode 0),
         LogInfo (SuccessfullyProcessed ''slideA.svs'')])
   \<and> run_events (watcher0\<lparr>processed_files := {''/in/slideA.svs''}\<rparr>)
        [(slideA, stub_world [Some 1000, Some 1000] (Returncode 0) (Returncode 0))]
      = (watcher0\<lparr>processed_files := {''/in/slideA.svs''}\<rparr>,
         [[LogInfo (AlreadyProcessed ''slideA.svs'')]])
   \<and> ''/in/slideA.svs'' \<in> processed_files (watcher0\<lparr>processed_files := {''/in/slideA.svs''}\<rparr>)
   \<and> on_created (watcher0\<lparr>processed_files := {''/in/slideA.svs''}\<rparr>) slideA
        (stub_world [Some 1000, Some 1000] (Returncode 0) (Returncode 0))
      = (Returned, watcher0\<lparr>processed_files := {''/in/slideA.svs''}\<rparr>,
         [LogInfo (AlreadyProcessed ''slideA.svs'')])"
proof -
  let ?w = "stub_world [Some 1000, Some 1000] (Returncode 0) (Returncode 0)"
  let ?s1 = "watcher0\<lparr>processed_files := {''/in/slideA.svs''}\<rparr>"
  let ?tr = "[LogInfo (NewFileDetected ''slideA.svs''),
         GetSize ''/in/slideA.svs'' (Some 1000), Sleep 1, GetSize ''/in/slideA.svs'' (Some 1000),
         LogInfo (RunningTissueDetection ''slideA.svs''),
         SubprocessRun (stage1_cmd watcher0) (Returncode 0),
         LogInfo (RunningArtifactDetection ''slideA.svs''),
         SubprocessRun (stage2_cmd watcher0) (Returncode 0),
         LogInfo (SuccessfullyProcessed ''slideA.svs'')]"
  have first: "on_created watcher0 slideA ?w = (Returned, ?s1, ?tr)"
    by code_simp
  have zero: "runs_of ?tr = [(stage1_cmd watcher0, Returncode 0), (stage2_cmd watcher0, Returncode 0)]"
    by simp
  have between: "run_events ?s1 [(slideA, ?w)] = (?s1, [[LogInfo (AlreadyProcessed ''slideA.svs'')]])"
    by code_simp
  have name: "basename (src_path slideA) = ''slideA.svs''" and dir: "\<not> is_directory slideA"
    and path: "src_path slideA = ''/in/slideA.svs''"
    by (simp_all add: slideA_def basename_def)
  from completed_path_never_reprocessed [OF first zero between refl, of ?w] name dir path
  show ?thesis using first between by auto
qed

text \<open>
  C3. When the stage 1 child process returns a code that is not zero, the trace of the call
  holds no stage 2 invocation (stage 1 is the only child process started), the call ends
  with the error log line for the \<^verbatim>\<open>CalledProcessError\<close> of the stage 1 command, and
  nothing is recorded.
\<close>

theorem stage1_failure_skips_stage2:
  assumes "on_created self ev w = (st, self', tr)"
    and "(stage1_cmd self, Returncode rc) \<in> set (runs_of tr)" and "rc \<noteq> 0"
  shows "length (filter (\<lambda>(cmd, r). cmd = stage2_cmd self) (runs_of tr)) = 0
    \<and> runs_of tr = [(stage1_cmd self, Returncode rc)]
    \<and> last tr = LogError (ErrorProcessing (basename (src_path ev))
                   (CalledProcessError rc (stage1_cmd self)))
    \<and> self' = self"
proof -
  from assms(2) have ne: "runs_of tr \<noteq> []" by auto
  from on_created_pipeline [OF assms(1) ne] obtain wt pt where
    rp: "run_pipeline self w (src_path ev) (basename (src_path ev)) = (self', pt)"
    and tr: "tr = LogInfo (NewFileDetected (basename (src_path ev))) # wt @ pt"
    and runs: "runs_of tr = runs_of pt"
    by blast
  from assms(2) runs have "(stage1_cmd self, Returncode rc) \<in> set (runs_of pt)" by simp
  from run_pipeline_stage1_failed [OF rp this assms(3)]
  have *: "self' = self" "runs_of pt = [(stage1_cmd self, Returncode rc)]"
    "last pt = LogError (ErrorProcessing (basename (src_path ev))
                   (CalledProcessError rc (stage1_cmd self)))"
    by simp_all
  from *(2) have "pt \<noteq> []" by auto
  with tr *(3) have "last tr = LogError (ErrorProcessing (basename (src_path ev))
                   (CalledProcessError rc (stage1_cmd self)))"
    by simp
  with * runs show ?thesis by (simp add: stage_cmds_differ)
qed

text \<open>The theorem on \<^verbatim>\<open>slideA.svs\<close> with a stage 1 that returns 1.\<close>

theorem stage1_failure_skips_stage2_witness:
  "on_created watcher0 slideA (stub_world [Some 1000, Some 1000] (Returncode 1) (Returncode 0))
     = (Returned, watcher0,
        [LogInfo (NewFileDetected ''slideA.svs''),
         GetSize ''/in/slideA.svs'' (Some 1000), Sleep 1, GetSize ''/in/slideA.svs'' (Some 1000),
         LogInfo (RunningTissueDetection ''slideA.svs''),
         SubprocessRun (stage1_cmd watcher0) (Returncode 1),
         LogError (ErrorProcessing ''slideA.svs'' (CalledProcessError 1 (stage1_cmd watcher0)))])
   \<and> (stage1_cmd watcher0, Returncode 1) \<in> set (runs_of
        [LogInfo (NewFileDetected ''slideA.svs''),
         GetSize ''/in/slideA.svs'' (Some 1000), Sleep 1, GetSize ''/in/slideA.svs'' (Some 1000),
         LogInfo (RunningTissueDetection ''slideA.svs''),
         SubprocessRun (stage1_cmd watcher0) (Returncode 1),
         LogError (ErrorProcessing ''slideA.svs'' (CalledProcessError 1 (stage1_cmd watcher0)))])
   \<and> (1 :: int) \<noteq> 0
   \<and> length (filter (\<lambda>(cmd, r). cmd = stage2_cmd watcher0) (runs_of
        [LogInfo (NewFileDetected ''slideA.svs''),
         GetSize ''/in/slideA.svs'' (Some 1000), Sleep 1, GetSize ''/in/slideA.svs'' (Some 1000),
         LogInfo (RunningTissueDetection ''slideA.svs''),
         SubprocessRun (stage1_cmd watcher0) (Returncode 1),
         LogError (ErrorProcessing ''slideA.svs'' (CalledProcessError 1 (stage1_cmd watcher0)))])) = 0"
proof -
  let ?w = "stub_world [Some 1000, Some 1000] (Returncode 1) (Returncode 0)"
  let ?tr = "[LogInfo (NewFileDetected ''slideA.svs''),
         GetSize ''/in/slideA.svs'' (Some 1000), Sleep 1, GetSize ''/in/slideA.svs'' (Some 1000),
         LogInfo (RunningTissueDetection ''slideA.svs''),
         SubprocessRun (stage1_cmd watcher0) (Returncode 1),
         LogError (ErrorProcessing ''slideA.svs'' (CalledProcessError 1 (stage1_cmd watcher0)))]"
  have call: "on_created watcher0 slideA ?w = (Returned, watcher0, ?tr)"
    by code_simp
  have run1: "(stage1_cmd watcher0, Returncode 1) \<in> set (runs_of ?tr)"
    by simp
  have rc: "(1 :: int) \<noteq> 0" by simp
  from stage1_failure_skips_stage2 [OF call run1 rc] call run1 rc
  show ?thesis by blast
qed

text \<open>
  C4. When a child process of the call did not return zero, the handler is left as it was:
  the processed set is the one before the event and the path is not in it. A later
  creation event for the same file therefore gets past the duplicate check (its first log
  line is the detection of a new file), and when its own stability wait ends with a stable
  size, its first child process is stage 1 again.
\<close>

theorem failed_path_may_be_retried:
  assumes "on_created self ev w = (st, self', tr)"
    and "(cmd, r) \<in> set (runs_of tr)" and "r \<noteq> Returncode 0"
  shows "processed_files self' = processed_files self \<and> src_path ev \<notin> processed_files self'
    \<and> (src_path ev' = src_path ev \<and> \<not> is_directory ev' \<longrightarrow>
         (\<exists>tr2. snd (snd (on_created self' ev' w'))
                  = LogInfo (NewFileDetected (basename (src_path ev))) # tr2)
         \<and> (fst (wait_loop (src_path ev) (basename (src_path ev)) (- 1) (size_readings w'))
               = Stable \<longrightarrow>
              (\<exists>rest. runs_of (snd (snd (on_created self' ev' w')))
                  = (stage1_cmd self, subprocess_outcome w' (stage1_cmd self)) # rest)))"
proof -
  from assms(2) have ne: "runs_of tr \<noteq> []" by auto
  from on_created_pipeline [OF assms(1) ne] obtain wt pt where
    svs: "endswith (lower (src_path ev)) ''.svs''"
    and fresh: "src_path ev \<notin> processed_files self"
    and rp: "run_pipeline self w (src_path ev) (basename (src_path ev)) = (self', pt)"
    and runs: "runs_of tr = runs_of pt"
    by blast
  from assms(2) runs have "(cmd, r) \<in> set (runs_of pt)" by simp
  from run_pipeline_failed [OF rp this assms(3)] have same: "self' = self" .
  show ?thesis
  proof (intro conjI impI)
    show "processed_files self' = processed_files self" using same by simp
    show "src_path ev \<notin> processed_files self'" using same fresh by simp
  next
    assume a: "src_path ev' = src_path ev \<and> \<not> is_directory ev'"
    with svs fresh same have h: "\<not> is_directory ev'" "endswith (lower (src_path ev')) ''.svs''"
      "src_path ev' \<notin> processed_files self'" by simp_all
    from on_created_fresh(1) [OF h, of w'] a
    show "\<exists>tr2. snd (snd (on_created self' ev' w'))
                  = LogInfo (NewFileDetected (basename (src_path ev))) # tr2"
      by simp
    assume "fst (wait_loop (src_path ev) (basename (src_path ev)) (- 1) (size_readings w')) = Stable"
    with a have "fst (wait_loop (src_path ev') (basename (src_path ev')) (- 1) (size_readings w'))
       = Stable" by simp
    from on_created_fresh(2) [OF h this] same
    show "\<exists>rest. runs_of (snd (snd (on_created self' ev' w')))
                  = (stage1_cmd self, subprocess_outcome w' (stage1_cmd self)) # rest"
      by simp
  qed
qed

text \<open>
  The theorem on \<^verbatim>\<open>slideA.svs\<close>: a first event in which stage 1 returns 1, then a second
  event for the same file in which both stages return zero.
\<close>

theorem failed_path_may_be_retried_witness:
  "on_created watcher0 slideA (stub_world [Some 1000, Some 1000] (Returncode 1) (Returncode 0))
     = (Returned, watcher0,
        [LogInfo (NewFileDetected ''slideA.svs''),
         GetSize ''/in/slideA.svs'' (Some 1000), Sleep 1, GetSize ''/in/slideA.svs'' (Some 1000),
         LogInfo (RunningTissueDetection ''slideA.svs''),
         SubprocessRun (stage1_cmd watcher0) (Returncode 1),
         LogError (ErrorProcessing ''slideA.svs'' (CalledProcessError 1 (stage1_cmd watcher0)))])
   \<and> Returncode 1 \<noteq> Returncode 0
   \<and> processed_files watcher0 = {}
   \<and> \<not> is_directory slideA
   \<and> fst (wait_loop ''/in/slideA.svs'' ''slideA.svs'' (- 1)
        (size_readings (stub_world [Some 1000, Some 1000] (Returncode 0) (Returncode 0)))) = Stable
   \<and> (\<exists>rest. runs_of (snd (snd (on_created watcher0 slideA
            (stub_world [Some 1000, Some 1000] (Returncode 0) (Returncode 0)))))
         = (stage1_cmd watcher0, Returncode 0) # rest)"
proof -
  let ?w = "stub_world [Some 1000, Some 1000] (Returncode 1) (Returncode 0)"
  let ?w' = "stub_world [Some 1000, Some 1000] (Returncode 0) (Returncode 0)"
  let ?tr = "[LogInfo (NewFileDetected ''slideA.svs''),
         GetSize ''/in/slideA.svs'' (Some 1000), Sleep 1, GetSize ''/in/slideA.svs'' (Some 1000),
         LogInfo (RunningTissueDetection ''slideA.svs''),
         SubprocessRun (stage1_cmd watcher0) (Returncode 1),
         LogError (ErrorProcessing ''slideA.svs'' (CalledProcessError 1 (stage1_cmd watcher0)))]"
  have call: "on_created watcher0 slideA ?w = (Returned, watcher0, ?tr)"
    by code_simp
  have run1: "(stage1_cmd watcher0, Returncode 1) \<in> set (runs_of ?tr)"
    by simp
  have rc: "Returncode 1 \<noteq> Returncode 0" by simp
  have name: "basename (src_path slideA) = ''slideA.svs''" and dir: "\<not> is_directory slideA"
    and path: "src_path slideA = ''/in/slideA.svs''"
    by (simp_all add: slideA_def basename_def)
  have stable: "fst (wait_loop ''/in/slideA.svs'' ''slideA.svs'' (- 1) (size_readings ?w')) = Stable"
    by (simp add: stub_world_def)
  have out: "subprocess_outcome ?w' (stage1_cmd watcher0) = Returncode 0"
    by (simp add: stub_world_def stage1_cmd_def)
  have empty: "processed_files watcher0 = {}"
    by (simp add: watcher0_def init_def)
  from failed_path_may_be_retried [OF call run1 rc, of slideA ?w'] name dir path stable out
  have "\<exists>rest. runs_of (snd (snd (on_created watcher0 slideA ?w')))
         = (stage1_cmd watcher0, Returncode 0) # rest"
    by simp
  with call rc empty dir stable show ?thesis by blast
qed

text \<open>
  C7, as the code has it. The steps of a call come in the order: extension filter,
  duplicate check against the processed set, stability wait, the two stages. An event that
  fails the filter has no effect; a path already in the set is answered with the one log
  line and no size reading; for any other path the trace is the detection line, then the
  effects of the wait (size readings and sleeps, no child process), then, only when the
  wait ended with a stable size, the effects of the two stages (no size reading).
\<close>

theorem on_created_step_order:
  assumes "on_created self ev w = (st, self', tr)"
  shows "(is_directory ev \<or> \<not> endswith (lower (src_path ev)) ''.svs'' \<longrightarrow> tr = [])
    \<and> (\<not> is_directory ev \<and> endswith (lower (src_path ev)) ''.svs''
         \<and> src_path ev \<in> processed_files self \<longrightarrow>
           tr = [LogInfo (AlreadyProcessed (basename (src_path ev)))])
    \<and> (\<not> is_directory ev \<and> endswith (lower (src_path ev)) ''.svs''
         \<and> src_path ev \<notin> processed_files self \<longrightarrow>
           (\<exists>r wt pt.
              wait_loop (src_path ev) (basename (src_path ev)) (- 1) (size_readings w) = (r, wt)
              \<and> tr = LogInfo (NewFileDetected (basename (src_path ev))) # wt @ pt
              \<and> runs_of wt = [] \<and> readings_of pt = []
              \<and> (r \<noteq> Stable \<longrightarrow> pt = [])
              \<and> (r = Stable \<longrightarrow>
                   pt = snd (run_pipeline self w (src_path ev) (basename (src_path ev))))))"
proof (intro conjI impI)
  assume "is_directory ev \<or> \<not> endswith (lower (src_path ev)) ''.svs''"
  from on_created_filtered [OF this] assms show "tr = []" by simp
next
  assume "\<not> is_directory ev \<and> endswith (lower (src_path ev)) ''.svs''
         \<and> src_path ev \<in> processed_files self"
  with assms show "tr = [LogInfo (AlreadyProcessed (basename (src_path ev)))]"
    by (simp add: on_created_duplicate)
next
  let ?p = "src_path ev" and ?fn = "basename (src_path ev)"
  assume new: "\<not> is_directory ev \<and> endswith (lower (src_path ev)) ''.svs''
         \<and> src_path ev \<notin> processed_files self"
  obtain r wt where wl: "wait_loop ?p ?fn (- 1) (size_readings w) = (r, wt)"
    by (cases "wait_loop ?p ?fn (- 1) (size_readings w)")
  have wr: "runs_of wt = []"
    using wait_loop_runs [of ?p ?fn "- 1" "size_readings w"] wl by simp
  obtain s2 pt where rp: "run_pipeline self w ?p ?fn = (s2, pt)"
    by (cases "run_pipeline self w ?p ?fn")
  have pr: "readings_of pt = []"
    using run_pipeline_readings [of self w ?p ?fn] rp by simp
  define pt' where "pt' = (if r = Stable then pt else [])"
  have "tr = LogInfo (NewFileDetected ?fn) # wt @ pt'"
    using assms new wl rp by (cases r) (simp_all add: on_created_new pt'_def)
  moreover have "readings_of pt' = []" using pr by (simp add: pt'_def)
  moreover have "r \<noteq> Stable \<longrightarrow> pt' = []" by (simp add: pt'_def)
  moreover have "r = Stable \<longrightarrow> pt' = snd (run_pipeline self w ?p ?fn)"
    using rp by (simp add: pt'_def)
  ultimately show "\<exists>r wt pt.
              wait_loop ?p ?fn (- 1) (size_readings w) = (r, wt)
              \<and> tr = LogInfo (NewFileDetected ?fn) # wt @ pt
              \<and> runs_of wt = [] \<and> readings_of pt = []
              \<and> (r \<noteq> Stable \<longrightarrow> pt = [])
              \<and> (r = Stable \<longrightarrow> pt = snd (run_pipeline self w ?p ?fn))"
    using wl wr by blast
qed

text \<open>
  The theorem on two events for \<^verbatim>\<open>slideA.svs\<close>: one while the path is already in the
  set and the file cannot be read, one for the new file with its size settling at 1000.
\<close>

theorem on_created_step_order_witness:
  "on_created (watcher0\<lparr>processed_files := {''/in/slideA.svs''}\<rparr>) slideA
        (stub_world [None] (Returncode 0) (Returncode 0))
      = (Returned, watcher0\<lparr>processed_files := {''/in/slideA.svs''}\<rparr>,
         [LogInfo (AlreadyProcessed ''slideA.svs'')])
   \<and> \<not> is_directory slideA \<and> endswith (lower (src_path slideA)) ''.svs''
   \<and> src_path slideA \<in> processed_files (watcher0\<lparr>processed_files := {''/in/slideA.svs''}\<rparr>)
   \<and> [LogInfo (AlreadyProcessed ''slideA.svs'')]
       = [LogInfo (AlreadyProcessed (basename (src_path slideA)))]
   \<and> src_path slideA \<notin> processed_files watcher0
   \<and> on_created watcher0 slideA (stub_world [Some 1000, Some 1000] (Returncode 0) (Returncode 0))
     = (Returned, watcher0\<lparr>processed_files := {''/in/slideA.svs''}\<rparr>,
        [LogInfo (NewFileDetected ''slideA.svs''),
         GetSize ''/in/slideA.svs'' (Some 1000), Sleep 1, GetSize ''/in/slideA.svs'' (Some 1000),
         LogInfo (RunningTissueDetection ''slideA.svs''),
         SubprocessRun (stage1_cmd watcher0) (Returncode 0),
         LogInfo (RunningArtifactDetection ''slideA.svs''),
         SubprocessRun (stage2_cmd watcher0) (Returncode 0),
         LogInfo (SuccessfullyProcessed ''slideA.svs'')])
   \<and> (\<exists>wt pt.
        [LogInfo (NewFileDetected ''slideA.svs''),
         GetSize ''/in/slideA.svs'' (Some 1000), Sleep 1, GetSize ''/in/slideA.svs'' (Some 1000),
         LogInfo (RunningTissueDetection ''slideA.svs''),
         SubprocessRun (stage1_cmd watcher0) (Returncode 0),
         LogInfo (RunningArtifactDetection ''slideA.svs''),
         SubprocessRun (stage2_cmd watcher0) (Returncode 0),
         LogInfo (SuccessfullyProcessed ''slideA.svs'')]
          = LogInfo (NewFileDetected (basename (src_path slideA))) # wt @ pt
        \<and> runs_of wt = [] \<and> readings_of pt = [])"
proof -
  let ?s = "watcher0\<lparr>processed_files := {''/in/slideA.svs''}\<rparr>"
  let ?w = "stub_world [None] (Returncode 0) (Returncode 0)"
  let ?wk = "stub_world [Some 1000, Some 1000] (Returncode 0) (Returncode 0)"
  let ?trk = "[LogInfo (NewFileDetected ''slideA.svs''),
         GetSize ''/in/slideA.svs'' (Some 1000), Sleep 1, GetSize ''/in/slideA.svs'' (Some 1000),
         LogInfo (RunningTissueDetection ''slideA.svs''),
         SubprocessRun (stage1_cmd watcher0) (Returncode 0),
         LogInfo (RunningArtifactDetection ''slideA.svs''),
         SubprocessRun (stage2_cmd watcher0) (Returncode 0),
         LogInfo (SuccessfullyProcessed ''slideA.svs'')]"
  have call: "on_created ?s slideA ?w = (Returned, ?s, [LogInfo (AlreadyProcessed ''slideA.svs'')])"
    by code_simp
  have first: "on_created watcher0 slideA ?wk = (Returned, ?s, ?trk)"
    by code_simp
  have dir: "\<not> is_directory slideA" by (simp add: slideA_def)
  have svs: "endswith (lower (src_path slideA)) ''.svs''" by code_simp
  have mem: "src_path slideA \<in> processed_files ?s" by (simp add: slideA_def)
  have fresh: "src_path slideA \<notin> processed_files watcher0" by (simp add: watcher0_def init_def)
  from on_created_step_order [OF call] dir svs mem
  have dup: "[LogInfo (AlreadyProcessed ''slideA.svs'')]
       = [LogInfo (AlreadyProcessed (basename (src_path slideA)))]"
    by blast
  from on_created_step_order [OF first] dir svs fresh
  have new: "\<exists>wt pt. ?trk = LogInfo (NewFileDetected (basename (src_path slideA))) # wt @ pt
        \<and> runs_of wt = [] \<and> readings_of pt = []"
    by blast
  from call dir svs mem dup fresh first new show ?thesis by blast
qed

text \<open>
  C7 as stated fails: the duplicate check does not wait for the stability wait. With
  \<^verbatim>\<open>/in/slideA.svs\<close> in the set and its size unreadable, the call answers that the file
  was already processed, and has read no size at all.
\<close>

theorem duplicate_check_precedes_wait_counterexample:
  "snd (snd (on_created (watcher0\<lparr>processed_files := {''/in/slideA.svs''}\<rparr>) slideA
        (stub_world [None] (Returncode 0) (Returncode 0))))
      = [LogInfo (AlreadyProcessed ''slideA.svs'')]
   \<and> readings_of (snd (snd (on_created (watcher0\<lparr>processed_files := {''/in/slideA.svs''}\<rparr>)
        slideA (stub_world [None] (Returncode 0) (Returncode 0))))) = []
   \<and> fst (wait_loop ''/in/slideA.svs'' ''slideA.svs'' (- 1)
        (size_readings (stub_world [None] (Returncode 0) (Returncode 0)))) = FileUnavailable"
  by code_simp

text \<open>
  C8. When a size reading fails during the stability wait, the call comes back (it is not
  left in the loop and nothing is raised), its last effect is the error log line about
  the file, no child process has been started, and the handler is left as it was, so the
  path is not in the processed set. A later creation event for the same file is then
  handled as for a file never seen: it gets past the duplicate check, and when its own
  wait ends with a stable size its first child process is stage 1.
\<close>

theorem unreadable_file_aborts_before_stages:
  assumes "on_created self ev w = (st, self', tr)" and "None \<in> set (readings_of tr)"
  shows "st = Returned \<and> self' = self \<and> runs_of tr = []
    \<and> last tr = LogError (ErrorAccessing (basename (src_path ev)))
    \<and> src_path ev \<notin> processed_files self'
    \<and> (src_path ev' = src_path ev \<and> \<not> is_directory ev' \<longrightarrow>
         (\<exists>tr2. snd (snd (on_created self' ev' w'))
                  = LogInfo (NewFileDetected (basename (src_path ev))) # tr2)
         \<and> (fst (wait_loop (src_path ev) (basename (src_path ev)) (- 1) (size_readings w'))
               = Stable \<longrightarrow>
              (\<exists>rest. runs_of (snd (snd (on_created self' ev' w')))
                  = (stage1_cmd self, subprocess_outcome w' (stage1_cmd self)) # rest)))"
proof -
  let ?p = "src_path ev" and ?fn = "basename (src_path ev)"
  have new: "\<not> is_directory ev" "endswith (lower ?p) ''.svs''" "?p \<notin> processed_files self"
  proof -
    have "\<not> (is_directory ev \<or> \<not> endswith (lower ?p) ''.svs'')"
    proof
      assume "is_directory ev \<or> \<not> endswith (lower ?p) ''.svs''"
      from on_created_filtered [OF this, of self w] assms show False by simp
    qed
    then show f: "\<not> is_directory ev" "endswith (lower ?p) ''.svs''" by simp_all
    show "?p \<notin> processed_files self"
    proof
      assume "?p \<in> processed_files self"
      from on_created_duplicate [OF f this, of w] assms show False by simp
    qed
  qed
  obtain r wt where wl: "wait_loop ?p ?fn (- 1) (size_readings w) = (r, wt)"
    by (cases "wait_loop ?p ?fn (- 1) (size_readings w)")
  obtain s2 pt where rp: "run_pipeline self w ?p ?fn = (s2, pt)"
    by (cases "run_pipeline self w ?p ?fn")
  have pr: "readings_of pt = []"
    using run_pipeline_readings [of self w ?p ?fn] rp by simp
  have wr: "runs_of wt = []"
    using wait_loop_runs [of ?p ?fn "- 1" "size_readings w"] wl by simp
  have "None \<in> set (readings_of wt)"
    using assms new wl rp pr by (cases r) (auto simp add: on_created_new readings_of_append)
  with wait_loop_Unavailable_iff [of ?p ?fn "- 1" "size_readings w"] wl
  have r: "r = FileUnavailable" by simp
  with assms(1) new wl have res: "st = Returned" "self' = self"
    "tr = LogInfo (NewFileDetected ?fn) # wt"
    by (simp_all add: on_created_new)
  from wait_loop_Unavailable_last wl r have "wt \<noteq> []" "last wt = LogError (ErrorAccessing ?fn)"
    by blast+
  with res have last: "last tr = LogError (ErrorAccessing ?fn)" by simp
  show ?thesis
  proof (intro conjI impI)
    show "st = Returned" "self' = self" by (rule res)+
    show "runs_of tr = []" using res wr by simp
    show "last tr = LogError (ErrorAccessing ?fn)" by (rule last)
    show "?p \<notin> processed_files self'" using res new by simp
  next
    assume a: "src_path ev' = ?p \<and> \<not> is_directory ev'"
    with new res have h: "\<not> is_directory ev'" "endswith (lower (src_path ev')) ''.svs''"
      "src_path ev' \<notin> processed_files self'" by simp_all
    from on_created_fresh(1) [OF h, of w'] a
    show "\<exists>tr2. snd (snd (on_created self' ev' w')) = LogInfo (NewFileDetected ?fn) # tr2"
      by simp
    assume "fst (wait_loop ?p ?fn (- 1) (size_readings w')) = Stable"
    with a have "fst (wait_loop (src_path ev') (basename (src_path ev')) (- 1) (size_readings w'))
       = Stable" by simp
    from on_created_fresh(2) [OF h this] res
    show "\<exists>rest. runs_of (snd (snd (on_created self' ev' w')))
                  = (stage1_cmd self, subprocess_outcome w' (stage1_cmd self)) # rest"
      by simp
  qed
qed

text \<open>
  The theorem on \<^verbatim>\<open>slideA.svs\<close>: a first event during which the file is read once at
  500 and then cannot be read, and a second event in which the size settles.
\<close>

theorem unreadable_file_aborts_before_stages_witness:
  "on_created watcher0 slideA (stub_world [Some 500, None] (Returncode 0) (Returncode 0))
     = (Returned, watcher0,
        [LogInfo (NewFileDetected ''slideA.svs''),
         GetSize ''/in/slideA.svs'' (Some 500), Sleep 1, GetSize ''/in/slideA.svs'' None,
         LogError (ErrorAccessing ''slideA.svs'')])
   \<and> None \<in> set (readings_of
        [LogInfo (NewFileDetected ''slideA.svs''),
         GetSize ''/in/slideA.svs'' (Some 500), Sleep 1, GetSize ''/in/slideA.svs'' None,
         LogError (ErrorAccessing ''slideA.svs'')])
   \<and> src_path slideA \<notin> processed_files watcher0
   \<and> \<not> is_directory slideA
   \<and> fst (wait_loop ''/in/slideA.svs'' ''slideA.svs'' (- 1)
        (size_readings (stub_world [Some 1000, Some 1000] (Returncode 0) (Returncode 0)))) = Stable
   \<and> (\<exists>rest. runs_of (snd (snd (on_created watcher0 slideA
            (stub_world [Some 1000, Some 1000] (Returncode 0) (Returncode 0)))))
         = (stage1_cmd watcher0, Returncode 0) # rest)"
proof -
  let ?w = "stub_world [Some 500, None] (Returncode 0) (Returncode 0)"
  let ?w' = "stub_world [Some 1000, Some 1000] (Returncode 0) (Returncode 0)"
  let ?tr = "[LogInfo (NewFileDetected ''slideA.svs''),
         GetSize ''/in/slideA.svs'' (Some 500), Sleep 1, GetSize ''/in/slideA.svs'' None,
         LogError (ErrorAccessing ''slideA.svs'')]"
  have call: "on_created watcher0 slideA ?w = (Returned, watcher0, ?tr)"
    by code_simp
  have failed: "None \<in> set (readings_of ?tr)"
    by simp
  have name: "basename (src_path slideA) = ''slideA.svs''" and dir: "\<not> is_directory slideA"
    and path: "src_path slideA = ''/in/slideA.svs''"
    by (simp_all add: slideA_def basename_def)
  have stable: "fst (wait_loop ''/in/slideA.svs'' ''slideA.svs'' (- 1) (size_readings ?w')) = Stable"
    by (simp add: stub_world_def)
  have out: "subprocess_outcome ?w' (stage1_cmd watcher0) = Returncode 0"
    by (simp add: stub_world_def stage1_cmd_def)
  note inst = unreadable_file_aborts_before_stages [OF call failed, of slideA ?w']
  from inst have fresh: "src_path slideA \<notin> processed_files watcher0" by blast
  from inst name dir path stable out
  have "\<exists>rest. runs_of (snd (snd (on_created watcher0 slideA ?w')))
         = (stage1_cmd watcher0, Returncode 0) # rest"
    by simp
  with call failed fresh dir stable show ?thesis by blast
qed

text \<open>
  C9. The processed set only grows: a call of the handler leaves it as it was or adds the
  path of the event, and it adds the path exactly when the child processes of the call
  were stage 1 and stage 2, both returning zero (the path was then not yet in the set).
  No sequence of events makes it smaller. Starting from the empty set of a new handler,
  every path in the set is the path of an event whose call ran both stages with return
  code zero; a failed run never puts its path in, so there is nothing to take out.
\<close>

theorem processed_files_only_grows:
  "(on_created self ev w = (st, self', tr) \<longrightarrow>
       processed_files self \<subseteq> processed_files self'
       \<and> processed_files self' =
           (if runs_of tr = [(stage1_cmd self, Returncode 0), (stage2_cmd self, Returncode 0)]
            then insert (src_path ev) (processed_files self) else processed_files self)
       \<and> (runs_of tr = [(stage1_cmd self, Returncode 0), (stage2_cmd self, Returncode 0)]
            \<longrightarrow> src_path ev \<notin> processed_files self))
   \<and> (run_events self evs = (self2, trs) \<longrightarrow> processed_files self \<subseteq> processed_files self2)
   \<and> (run_events (init idir odir) evs = (self3, trs3) \<longrightarrow>
        (\<forall>p \<in> processed_files self3.
           \<exists>k. k < length trs3 \<and> k < length evs \<and> src_path (fst (evs ! k)) = p
             \<and> runs_of (trs3 ! k) = [(stage1_cmd (init idir odir), Returncode 0),
                                       (stage2_cmd (init idir odir), Returncode 0)]))"
proof (intro conjI impI ballI)
  assume oc: "on_created self ev w = (st, self', tr)"
  show "processed_files self \<subseteq> processed_files self'"
    by (rule on_created_fields(3) [OF oc])
  show "processed_files self' =
           (if runs_of tr = [(stage1_cmd self, Returncode 0), (stage2_cmd self, Returncode 0)]
            then insert (src_path ev) (processed_files self) else processed_files self)"
    using on_created_state [OF oc] by simp
  assume "runs_of tr = [(stage1_cmd self, Returncode 0), (stage2_cmd self, Returncode 0)]"
  then have "runs_of tr \<noteq> []" by simp
  from on_created_pipeline [OF oc this] show "src_path ev \<notin> processed_files self" by blast
next
  assume "run_events self evs = (self2, trs)"
  from run_events_fields [OF this] show "processed_files self \<subseteq> processed_files self2" by blast
next
  fix p
  assume re: "run_events (init idir odir) evs = (self3, trs3)" and p: "p \<in> processed_files self3"
  have "p \<notin> processed_files (init idir odir)" by (simp add: init_def)
  with run_events_members [OF re p]
  show "\<exists>k. k < length trs3 \<and> k < length evs \<and> src_path (fst (evs ! k)) = p
             \<and> runs_of (trs3 ! k) = [(stage1_cmd (init idir odir), Returncode 0),
                                       (stage2_cmd (init idir odir), Returncode 0)]"
    by blast
qed

text \<open>
  The theorem on two events for \<^verbatim>\<open>slideA.svs\<close> handled by a new watcher: in the first
  stage 1 returns 1, in the second both stages return zero.
\<close>

theorem processed_files_only_grows_witness:
  "run_events (init ''/in'' ''/out'')
      [(slideA, stub_world [Some 1000, Some 1000] (Returncode 1) (Returncode 0)),
       (slideA, stub_world [Some 1000, Some 1000] (Returncode 0) (Returncode 0))]
     = (watcher0\<lparr>processed_files := {''/in/slideA.svs''}\<rparr>,
        [[LogInfo (NewFileDetected ''slideA.svs''),
          GetSize ''/in/slideA.svs'' (Some 1000), Sleep 1, GetSize ''/in/slideA.svs'' (Some 1000),
          LogInfo (RunningTissueDetection ''slideA.svs''),
          SubprocessRun (stage1_cmd watcher0) (Returncode 1),
          LogError (ErrorProcessing ''slideA.svs'' (CalledProcessError 1 (stage1_cmd watcher0)))],
         [LogInfo (NewFileDetected ''slideA.svs''),
          GetSize ''/in/slideA.svs'' (Some 1000), Sleep 1, GetSize ''/in/slideA.svs'' (Some 1000),
          LogInfo (RunningTissueDetection ''slideA.svs''),
          SubprocessRun (stage1_cmd watcher0) (Returncode 0),
          LogInfo (RunningArtifactDetection ''slideA.svs''),
          SubprocessRun (stage2_cmd watcher0) (Returncode 0),
          LogInfo (SuccessfullyProcessed ''slideA.svs'')]])
   \<and> on_created watcher0 slideA (stub_world [Some 1000, Some 1000] (Returncode 0) (Returncode 0))
     = (Returned, watcher0\<lparr>processed_files := {''/in/slideA.svs''}\<rparr>,
        [LogInfo (NewFileDetected ''slideA.svs''),
         GetSize ''/in/slideA.svs'' (Some 1000), Sleep 1, GetSize ''/in/slideA.svs'' (Some 1000),
         LogInfo (RunningTissueDetection ''slideA.svs''),
         SubprocessRun (stage1_cmd watcher0) (Returncode 0),
         LogInfo (RunningArtifactDetection ''slideA.svs''),
         SubprocessRun (stage2_cmd watcher0) (Returncode 0),
         LogInfo (SuccessfullyProcessed ''slideA.svs'')])
   \<and> processed_files (watcher0\<lparr>processed_files := {''/in/slideA.svs''}\<rparr>)
       = insert (src_path slideA) (processed_files watcher0)
   \<and> src_path slideA \<notin> processed_files watcher0
   \<and> processed_files (init ''/in'' ''/out'')
        \<subseteq> processed_files (watcher0\<lparr>processed_files := {''/in/slideA.svs''}\<rparr>)
   \<and> ''/in/slideA.svs'' \<in> processed_files (watcher0\<lparr>processed_files := {''/in/slideA.svs''}\<rparr>)
   \<and> (\<exists>k. k < 2 \<and> src_path (fst ([(slideA, stub_world [Some 1000, Some 1000] (Returncode 1) (Returncode 0)),
       (slideA, stub_world [Some 1000, Some 1000] (Returncode 0) (Returncode 0))] ! k))
         = ''/in/slideA.svs'')"
proof -
  let ?wf = "stub_world [Some 1000, Some 1000] (Returncode 1) (Returncode 0)"
  let ?wk = "stub_world [Some 1000, Some 1000] (Returncode 0) (Returncode 0)"
  let ?s1 = "watcher0\<lparr>processed_files := {''/in/slideA.svs''}\<rparr>"
  let ?trf = "[LogInfo (NewFileDetected ''slideA.svs''),
          GetSize ''/in/slideA.svs'' (Some 1000), Sleep 1, GetSize ''/in/slideA.svs'' (Some 1000),
          LogInfo (RunningTissueDetection ''slideA.svs''),
          SubprocessRun (stage1_cmd watcher0) (Returncode 1),
          LogError (ErrorProcessing ''slideA.svs'' (CalledProcessError 1 (stage1_cmd watcher0)))]"
  let ?trk = "[LogInfo (NewFileDetected ''slideA.svs''),
          GetSize ''/in/slideA.svs'' (Some 1000), Sleep 1, GetSize ''/in/slideA.svs'' (Some 1000),
          LogInfo (RunningTissueDetection ''slideA.svs''),
          SubprocessRun (stage1_cmd watcher0) (Returncode 0),
          LogInfo (RunningArtifactDetection ''slideA.svs''),
          SubprocessRun (stage2_cmd watcher0) (Returncode 0),
          LogInfo (SuccessfullyProcessed ''slideA.svs'')]"
  have run: "run_events (init ''/in'' ''/out'') [(slideA, ?wf), (slideA, ?wk)] = (?s1, [?trf, ?trk])"
    by code_simp
  have call: "on_created watcher0 slideA ?wk = (Returned, ?s1, ?trk)"
    by code_simp
  have runs: "runs_of ?trk = [(stage1_cmd watcher0, Returncode 0), (stage2_cmd watcher0, Returncode 0)]"
    by simp
  note inst = processed_files_only_grows
    [of watcher0 slideA ?wk Returned ?s1 ?trk "[(slideA, ?wf), (slideA, ?wk)]" ?s1
        "[?trf, ?trk]" "''/in''" "''/out''" ?s1 "[?trf, ?trk]"]
  from inst call
  have "processed_files ?s1 =
           (if runs_of ?trk = [(stage1_cmd watcher0, Returncode 0), (stage2_cmd watcher0, Returncode 0)]
            then insert (src_path slideA) (processed_files watcher0) else processed_files watcher0)"
    and "runs_of ?trk = [(stage1_cmd watcher0, Returncode 0), (stage2_cmd watcher0, Returncode 0)]
            \<longrightarrow> src_path slideA \<notin> processed_files watcher0"
    by blast+
  with runs
  have added: "processed_files ?s1 = insert (src_path slideA) (processed_files watcher0)"
    and fresh: "src_path slideA \<notin> processed_files watcher0"
    by simp_all
  from inst run have grow: "processed_files (init ''/in'' ''/out'') \<subseteq> processed_files ?s1"
    by (simp add: watcher0_def)
  from inst run have "\<forall>p \<in> processed_files ?s1.
           \<exists>k. k < length [?trf, ?trk] \<and> k < length [(slideA, ?wf), (slideA, ?wk)]
             \<and> src_path (fst ([(slideA, ?wf), (slideA, ?wk)] ! k)) = p
             \<and> runs_of ([?trf, ?trk] ! k) = [(stage1_cmd (init ''/in'' ''/out''), Returncode 0),
                                       (stage2_cmd (init ''/in'' ''/out''), Returncode 0)]"
    by blast
  then have "\<forall>p \<in> processed_files ?s1.
        \<exists>k. k < 2 \<and> src_path (fst ([(slideA, ?wf), (slideA, ?wk)] ! k)) = p"
    by (metis length_Cons list.size(3) numeral_2_eq_2)
  moreover have mem: "''/in/slideA.svs'' \<in> processed_files ?s1" by simp
  ultimately have "\<exists>k. k < 2 \<and> src_path (fst ([(slideA, ?wf), (slideA, ?wk)] ! k))
      = ''/in/slideA.svs''"
    by blast
  with run call added fresh grow mem show ?thesis by blast
qed

text \<open>
  C10. The extension filter does not look at the case of the letters. A call of the handler
  has an effect (its first effect is always a log line) if and only if the event is not a
  directory event and the lowered path ends with \<^verbatim>\<open>.svs\<close>; otherwise it comes back with
  the handler as it was and with no effect, so with no log line. The lowered path ends
  with \<^verbatim>\<open>.svs\<close> exactly when the path ends with a dot, an s, a v and an s, each letter in
  either case: paths ending in \<^verbatim>\<open>.SVS\<close> or \<^verbatim>\<open>.Svs\<close> get through.
\<close>

theorem extension_filter_ignores_case:
  "(snd (snd (on_created self ev w)) \<noteq> [] \<longleftrightarrow>
       \<not> is_directory ev \<and> endswith (lower (src_path ev)) ''.svs'')
   \<and> (\<not> is_directory ev \<and> endswith (lower (src_path ev)) ''.svs'' \<longrightarrow>
        (\<exists>m tr2. snd (snd (on_created self ev w)) = LogInfo m # tr2))
   \<and> (is_directory ev \<or> \<not> endswith (lower (src_path ev)) ''.svs'' \<longrightarrow>
        on_created self ev w = (Returned, self, []))
   \<and> (endswith (lower p) ''.svs'' \<longleftrightarrow>
        (\<exists>pre a b c. p = pre @ [CHR ''.'', a, b, c] \<and> a \<in> {CHR ''s'', CHR ''S''}
           \<and> b \<in> {CHR ''v'', CHR ''V''} \<and> c \<in> {CHR ''s'', CHR ''S''}))
   \<and> endswith (lower (stem @ ''.SVS'')) ''.svs'' \<and> endswith (lower (stem @ ''.Svs'')) ''.svs''"
proof -
  have acts: "\<exists>m tr2. snd (snd (on_created self ev w)) = LogInfo m # tr2"
    if f: "\<not> is_directory ev \<and> endswith (lower (src_path ev)) ''.svs''"
  proof (cases "src_path ev \<in> processed_files self")
    case True
    with f show ?thesis by (simp add: on_created_duplicate)
  next
    case False
    with f on_created_fresh(1) [of ev self w] show ?thesis by blast
  qed
  have skips: "on_created self ev w = (Returned, self, [])"
    if "is_directory ev \<or> \<not> endswith (lower (src_path ev)) ''.svs''"
    using that by (rule on_created_filtered)
  have iff: "snd (snd (on_created self ev w)) \<noteq> [] \<longleftrightarrow>
       \<not> is_directory ev \<and> endswith (lower (src_path ev)) ''.svs''"
    using acts skips by (cases "\<not> is_directory ev \<and> endswith (lower (src_path ev)) ''.svs''") auto
  have "stem @ ''.SVS'' = stem @ [CHR ''.'', CHR ''S'', CHR ''V'', CHR ''S'']"
    and "stem @ ''.Svs'' = stem @ [CHR ''.'', CHR ''S'', CHR ''v'', CHR ''s'']"
    by simp_all
  then have upper: "endswith (lower (stem @ ''.SVS'')) ''.svs''"
    and mixed: "endswith (lower (stem @ ''.Svs'')) ''.svs''"
    unfolding lower_svs by blast+
  from iff acts skips upper mixed lower_svs [of p] show ?thesis by blast
qed

text \<open>
  The theorem on the creation events of \<^verbatim>\<open>/in/B.SVS\<close> (handled) and of
  \<^verbatim>\<open>/in/notes.txt\<close> (no effect).
\<close>

theorem extension_filter_ignores_case_witness:
  "\<not> is_directory \<lparr>is_directory = False, src_path = ''/in/B.SVS''\<rparr>
   \<and> endswith (lower (src_path \<lparr>is_directory = False, src_path = ''/in/B.SVS''\<rparr>)) ''.svs''
   \<and> snd (snd (on_created watcher0 \<lparr>is_directory = False, src_path = ''/in/B.SVS''\<rparr>
        (stub_world [Some 7, Some 7] (Returncode 0) (Returncode 0)))) \<noteq> []
   \<and> \<not> endswith (lower (src_path \<lparr>is_directory = False, src_path = ''/in/notes.txt''\<rparr>)) ''.svs''
   \<and> on_created watcher0 \<lparr>is_directory = False, src_path = ''/in/notes.txt''\<rparr>
        (stub_world [Some 7, Some 7] (Returncode 0) (Returncode 0)) = (Returned, watcher0, [])"
proof -
  let ?B = "\<lparr>is_directory = False, src_path = ''/in/B.SVS''\<rparr>"
  let ?N = "\<lparr>is_directory = False, src_path = ''/in/notes.txt''\<rparr>"
  let ?w = "stub_world [Some 7, Some 7] (Returncode 0) (Returncode 0)"
  have dir: "\<not> is_directory ?B" by simp
  have svs: "endswith (lower (src_path ?B)) ''.svs''" by code_simp
  have nosvs: "\<not> endswith (lower (src_path ?N)) ''.svs''" by code_simp
  from extension_filter_ignores_case [of watcher0 ?B ?w] dir svs
  have "snd (snd (on_created watcher0 ?B ?w)) \<noteq> []" by blast
  moreover from extension_filter_ignores_case [of watcher0 ?N ?w] nosvs
  have "on_created watcher0 ?N ?w = (Returned, watcher0, [])" by blast
  ultimately show ?thesis using dir svs nosvs by blast
qed

section \<open>Facts about the report generator\<close>

lemma count_eq_append: "count_eq (xs @ ys) c = count_eq xs c + count_eq ys c"
  by (simp add: count_eq_def)

lemma count_eq_replicate: "count_eq (replicate n x) c = (if x = c then int n else 0)"
  by (simp add: count_eq_def)

lemma count_ne_eq: "count_ne msk c = int (length msk) - count_eq msk c"
proof -
  have "length (filter (\<lambda>p. p = c) msk) + length (filter (\<lambda>p. p \<noteq> c) msk) = length msk"
    using sum_length_filter_compl [of "\<lambda>p. p = c" msk] by simp
  then show ?thesis by (simp add: count_eq_def count_ne_def)
qed

lemma count_ne_zero_iff: "count_ne msk c = 0 \<longleftrightarrow> (\<forall>p \<in> set msk. p = c)"
  by (auto simp: count_ne_def filter_empty_conv)

lemma zero_percentages_range:
  "zero_percentages [1..<7] [] =
     Inr [(''Normal Tissue'', 0), (''Tissue Fold'', 0), (''Dark Spot/Foreign'', 0),
          (''Pen Marking'', 0), (''Air Bubble/Edge'', 0), (''Out of Focus'', 0)]"
  by code_simp

lemma percentages_loop_classes:
  assumes "t \<noteq> 0"
  shows "percentages_loop ops msk t artifact_classes [] =
     Inr [(''Normal Tissue'', fround ops (fmul ops (truediv ops (count_eq msk 1) t) 100) 2),
          (''Tissue Fold'', fround ops (fmul ops (truediv ops (count_eq msk 2) t) 100) 2),
          (''Dark Spot/Foreign'', fround ops (fmul ops (truediv ops (count_eq msk 3) t) 100) 2),
          (''Pen Marking'', fround ops (fmul ops (truediv ops (count_eq msk 4) t) 100) 2),
          (''Air Bubble/Edge'', fround ops (fmul ops (truediv ops (count_eq msk 5) t) 100) 2),
          (''Out of Focus'', fround ops (fmul ops (truediv ops (count_eq msk 6) t) 100) 2)]"
  using assms by (simp add: artifact_classes_def divide_counts_def)

lemma analyze_mask_zero:
  "count_ne msk 7 = 0 \<Longrightarrow> analyze_mask ops msk = zero_percentages [1..<7] []"
  by (simp add: analyze_mask_def Let_def)

lemma analyze_mask_nonzero:
  "count_ne msk 7 \<noteq> 0 \<Longrightarrow>
     analyze_mask ops msk = percentages_loop ops msk (count_ne msk 7) artifact_classes []"
  by (simp add: analyze_mask_def Let_def)

lemma class_cases: "c \<in> {1..6} \<Longrightarrow> c = 1 \<or> c = 2 \<or> c = 3 \<or> c = 4 \<or> c = 5 \<or> c = (6::nat)"
  by auto

section \<open>The claims about the report generator\<close>

text \<open>
  C5. On a mask with at least one pixel that is not background (class 7), \<open>analyze_mask\<close>
  returns a dictionary whose keys are the names of the classes 1 to 6, in that order, and
  whose value for class \<open>c\<close> is \<^verbatim>\<open>round(count(pixels == c) / count(pixels != 7) * 100, 2)\<close>,
  for whatever the floating-point division, multiplication and rounding are. On a mask of
  600 pixels, 500 of them background and 50 of class 2, the value for class 2 is 50.0
  (on doubles 50 / 100 is 0.5, 0.5 * 100 is 50.0 and 50.0 rounds to itself).
\<close>

theorem analyze_mask_percentages:
  assumes "\<exists>p \<in> set msk. p \<noteq> 7"
  shows "\<exists>d. analyze_mask ops msk = Inr d
    \<and> map fst d = [''Normal Tissue'', ''Tissue Fold'', ''Dark Spot/Foreign'', ''Pen Marking'',
                    ''Air Bubble/Edge'', ''Out of Focus'']
    \<and> (\<forall>c \<in> {1..6}. \<exists>class_name. map_of artifact_classes c = Some class_name
          \<and> map_of d class_name =
              Some (fround ops (fmul ops (truediv ops (count_eq msk c) (count_ne msk 7)) 100) 2))
    \<and> (length msk = 600 \<and> count_eq msk 7 = 500 \<and> count_eq msk 2 = 50
          \<and> truediv ops 50 100 = 1 / 2 \<and> fmul ops (1 / 2) 100 = 50 \<and> fround ops 50 2 = 50
        \<longrightarrow> map_of d ''Tissue Fold'' = Some 50)"
proof -
  let ?t = "count_ne msk 7"
  let ?v = "\<lambda>c. fround ops (fmul ops (truediv ops (count_eq msk c) ?t) 100) 2"
  let ?d = "[(''Normal Tissue'', ?v 1), (''Tissue Fold'', ?v 2), (''Dark Spot/Foreign'', ?v 3),
             (''Pen Marking'', ?v 4), (''Air Bubble/Edge'', ?v 5), (''Out of Focus'', ?v 6)]"
  from assms have t: "?t \<noteq> 0" by (simp add: count_ne_zero_iff)
  have res: "analyze_mask ops msk = Inr ?d"
    using analyze_mask_nonzero [OF t, of ops] percentages_loop_classes [OF t, of ops msk]
    by (rule trans)
  have keys: "map fst ?d = [''Normal Tissue'', ''Tissue Fold'', ''Dark Spot/Foreign'',
      ''Pen Marking'', ''Air Bubble/Edge'', ''Out of Focus'']"
    by simp
  have each: "\<exists>class_name. map_of artifact_classes c = Some class_name
          \<and> map_of ?d class_name = Some (?v c)" if "c \<in> {1..6}" for c
    using class_cases [OF that] by (auto simp add: artifact_classes_def)
  have example: "map_of ?d ''Tissue Fold'' = Some 50"
    if h: "length msk = 600 \<and> count_eq msk 7 = 500 \<and> count_eq msk 2 = 50
          \<and> truediv ops 50 100 = 1 / 2 \<and> fmul ops (1 / 2) 100 = 50 \<and> fround ops 50 2 = 50"
  proof -
    from h have "?t = 100" by (simp add: count_ne_eq)
    moreover from h have "count_eq msk 2 = 50" "truediv ops 50 100 = 1 / 2"
      "fmul ops (1 / 2) 100 = 50" "fround ops 50 2 = 50"
      by blast+
    ultimately have "?v 2 = 50" by (simp only:)
    then show ?thesis by simp
  qed
  show ?thesis
  proof (rule exI [where x = ?d], intro conjI ballI impI)
    show "analyze_mask ops msk = Inr ?d" by (rule res)
    show "map fst ?d = [''Normal Tissue'', ''Tissue Fold'', ''Dark Spot/Foreign'',
      ''Pen Marking'', ''Air Bubble/Edge'', ''Out of Focus'']"
      by (rule keys)
  next
    fix c :: nat
    assume "c \<in> {1..6}"
    then show "\<exists>class_name. map_of artifact_classes c = Some class_name
          \<and> map_of ?d class_name = Some (?v c)"
      by (rule each)
  next
    assume "length msk = 600 \<and> count_eq msk 7 = 500 \<and> count_eq msk 2 = 50
          \<and> truediv ops 50 100 = 1 / 2 \<and> fmul ops (1 / 2) 100 = 50 \<and> fround ops 50 2 = 50"
    then show "map_of ?d ''Tissue Fold'' = Some 50" by (rule example)
  qed
qed

text \<open>
  The theorem on the mask of 500 background pixels, 50 pixels of class 2 and 50 of class 1,
  with exact arithmetic.
\<close>

theorem analyze_mask_percentages_witness:
  "7 \<noteq> (2 :: nat) \<and> 2 \<in> set (replicate 500 7 @ replicate 50 2 @ replicate 50 (1 :: nat))
   \<and> length (replicate 500 7 @ replicate 50 2 @ replicate 50 (1 :: nat)) = 600
   \<and> count_eq (replicate 500 7 @ replicate 50 2 @ replicate 50 1) 7 = 500
   \<and> count_eq (replicate 500 7 @ replicate 50 2 @ replicate 50 1) 2 = 50
   \<and> truediv exact_ops 50 100 = 1 / 2 \<and> fmul exact_ops (1 / 2) 100 = 50
   \<and> fround exact_ops 50 2 = 50
   \<and> (\<exists>d. analyze_mask exact_ops (replicate 500 7 @ replicate 50 2 @ replicate 50 1) = Inr d
         \<and> map_of d ''Tissue Fold'' = Some 50)"
proof -
  let ?m = "replicate 500 7 @ replicate 50 2 @ replicate 50 (1 :: nat)"
  have tissue: "\<exists>p \<in> set ?m. p \<noteq> 7" by simp
  have len: "length ?m = 600" by simp
  have c7: "count_eq ?m 7 = 500" and c2: "count_eq ?m 2 = 50"
    by (simp_all add: count_eq_append count_eq_replicate)
  have ops: "truediv exact_ops 50 100 = 1 / 2" "fmul exact_ops (1 / 2) 100 = 50"
    "fround exact_ops 50 2 = 50"
    by (simp_all add: exact_ops_def)
  from analyze_mask_percentages [OF tissue, of exact_ops] len c7 c2 ops
  have "\<exists>d. analyze_mask exact_ops ?m = Inr d \<and> map_of d ''Tissue Fold'' = Some 50"
    by blast
  with len c7 c2 ops show ?thesis by simp
qed

text \<open>
  C6. On a mask whose pixels are all background (class 7), \<open>analyze_mask\<close> returns 0.0 for
  each of the six other classes, whatever the floating-point operations are: none of them
  is called. And on no mask at all does \<open>analyze_mask\<close> divide by zero: the division is
  only reached with a count of non-background pixels that is not zero.
\<close>

theorem analyze_mask_all_background:
  "((\<forall>p \<in> set msk. p = 7) \<longrightarrow>
      analyze_mask ops msk =
        Inr [(''Normal Tissue'', 0), (''Tissue Fold'', 0), (''Dark Spot/Foreign'', 0),
             (''Pen Marking'', 0), (''Air Bubble/Edge'', 0), (''Out of Focus'', 0)])
   \<and> analyze_mask ops msk \<noteq> Inl DivisionByZero"
proof (intro conjI impI)
  assume "\<forall>p \<in> set msk. p = 7"
  then have "count_ne msk 7 = 0" by (simp add: count_ne_zero_iff)
  then show "analyze_mask ops msk =
        Inr [(''Normal Tissue'', 0), (''Tissue Fold'', 0), (''Dark Spot/Foreign'', 0),
             (''Pen Marking'', 0), (''Air Bubble/Edge'', 0), (''Out of Focus'', 0)]"
    by (simp only: analyze_mask_zero zero_percentages_range)
next
  show "analyze_mask ops msk \<noteq> Inl DivisionByZero"
  proof (cases "count_ne msk 7 = 0")
    case True
    then have "analyze_mask ops msk = zero_percentages [1..<7] []"
      by (rule analyze_mask_zero)
    then show ?thesis by (simp only: zero_percentages_range) simp
  next
    case False
    then have "analyze_mask ops msk
        = percentages_loop ops msk (count_ne msk 7) artifact_classes []"
      by (rule analyze_mask_nonzero)
    then show ?thesis unfolding percentages_loop_classes [OF False] by simp
  qed
qed

text \<open>The theorem on a mask of 500 background pixels.\<close>

theorem analyze_mask_all_background_witness:
  "set (replicate 500 (7 :: nat)) = {7}
   \<and> analyze_mask exact_ops (replicate 500 7) =
        Inr [(''Normal Tissue'', 0), (''Tissue Fold'', 0), (''Dark Spot/Foreign'', 0),
             (''Pen Marking'', 0), (''Air Bubble/Edge'', 0), (''Out of Focus'', 0)]
   \<and> analyze_mask exact_ops (replicate 500 7) \<noteq> Inl DivisionByZero"
proof -
  have bg: "set (replicate 500 (7 :: nat)) = {7}" by simp
  then have "\<forall>p \<in> set (replicate 500 (7 :: nat)). p = 7" by simp
  with analyze_mask_all_background [of "replicate 500 7" exact_ops] bg
  show ?thesis by blast
qed

end
